theory Spec2Isabelle
  imports Complex_Main "HOL-Library.AList" "HOL-Library.Multiset"
begin

section \<open>Numbers, randomness and the clock\<close>

text \<open>
  The game server of \<^verbatim>\<open>src/server.js\<close> computes with JavaScript Numbers. Health, kills,
  sequence numbers and the countdown only ever see integer arithmetic and are modelled as
  integers. The geometry of the map, the random numbers, the spawn points and the lifetime
  of a bullet stay within a fixed finite range and are modelled as reals. The position, the
  heading and the velocity of a player and of a bullet depend on the numbers a client sends:
  they are modelled as \<open>jsnum\<close> below, with the infinities and NaN.

  \<^verbatim>\<open>Math.random()\<close> and \<^verbatim>\<open>Date.now()\<close> read the environment: \<open>rnd e\<close> is the sequence of
  results the coming calls of \<^verbatim>\<open>Math.random()\<close> return, \<open>clk e\<close> that of \<^verbatim>\<open>Date.now()\<close>.
  Every function that calls one of them takes the environment and returns what is left.
\<close>

record env =
  rnd :: "nat \<Rightarrow> real"
  clk :: "nat \<Rightarrow> nat"

definition mathRandom :: "env \<Rightarrow> real \<times> env" where
  "mathRandom e = (rnd e 0, e\<lparr>rnd := \<lambda>n. rnd e (Suc n)\<rparr>)"

definition dateNow :: "env \<Rightarrow> nat \<times> env" where
  "dateNow e = (clk e 0, e\<lparr>clk := \<lambda>n. clk e (Suc n)\<rparr>)"

text \<open>\<^verbatim>\<open>Math.random()\<close> returns a number in \<open>[0, 1)\<close>.\<close>

definition rnd_ok :: "env \<Rightarrow> bool" where
  "rnd_ok e = (\<forall>n. 0 \<le> rnd e n \<and> rnd e n < 1)"

subsection \<open>Numbers with infinities and NaN\<close>

text \<open>
  A JavaScript Number is a finite value, \<^verbatim>\<open>Infinity\<close>, \<^verbatim>\<open>-Infinity\<close> or \<^verbatim>\<open>NaN\<close>. Finite
  values are reals: the rounding of a result to the nearest double and the sign of zero are
  not represented. What is represented is the range. \<open>number v\<close> is the Number an operation
  returns whose exact result is \<open>v\<close>: an infinity when \<open>v\<close> rounds beyond the largest double
  \<open>2\<^sup>1\<^sup>0\<^sup>2\<^sup>4 - 2\<^sup>9\<^sup>7\<^sup>1\<close>, which it does from \<open>2\<^sup>1\<^sup>0\<^sup>2\<^sup>4 - 2\<^sup>9\<^sup>7\<^sup>0\<close> on.
\<close>

datatype jsnum = Fin real | PInf | NInf | NaN

definition OVERFLOW :: real where "OVERFLOW = 2 ^ 1024 - 2 ^ 970"

definition number :: "real \<Rightarrow> jsnum" where
  "number v = (if v \<ge> OVERFLOW then PInf else if v \<le> - OVERFLOW then NInf else Fin v)"

text \<open>The operators \<^verbatim>\<open>+\<close>, unary \<^verbatim>\<open>-\<close>, binary \<^verbatim>\<open>-\<close>, \<^verbatim>\<open>*\<close> and \<^verbatim>\<open>/\<close> on Numbers.\<close>

fun jadd :: "jsnum \<Rightarrow> jsnum \<Rightarrow> jsnum" where
  "jadd (Fin a) (Fin b) = number (a + b)"
| "jadd NaN y = NaN"
| "jadd x NaN = NaN"
| "jadd PInf NInf = NaN"
| "jadd NInf PInf = NaN"
| "jadd PInf y = PInf"
| "jadd x PInf = PInf"
| "jadd NInf y = NInf"
| "jadd x NInf = NInf"

fun jneg :: "jsnum \<Rightarrow> jsnum" where
  "jneg (Fin a) = Fin (- a)"
| "jneg PInf = NInf"
| "jneg NInf = PInf"
| "jneg NaN = NaN"

definition jsub :: "jsnum \<Rightarrow> jsnum \<Rightarrow> jsnum" where
  "jsub x y = jadd x (jneg y)"

fun jmul :: "jsnum \<Rightarrow> jsnum \<Rightarrow> jsnum" where
  "jmul (Fin a) (Fin b) = number (a * b)"
| "jmul NaN y = NaN"
| "jmul x NaN = NaN"
| "jmul (Fin a) PInf = (if a = 0 then NaN else if a > 0 then PInf else NInf)"
| "jmul (Fin a) NInf = (if a = 0 then NaN else if a > 0 then NInf else PInf)"
| "jmul PInf (Fin b) = (if b = 0 then NaN else if b > 0 then PInf else NInf)"
| "jmul NInf (Fin b) = (if b = 0 then NaN else if b > 0 then NInf else PInf)"
| "jmul PInf PInf = PInf"
| "jmul PInf NInf = NInf"
| "jmul NInf PInf = NInf"
| "jmul NInf NInf = PInf"

text \<open>A zero divisor counts as \<^verbatim>\<open>+0\<close>.\<close>

fun jdiv :: "jsnum \<Rightarrow> jsnum \<Rightarrow> jsnum" where
  "jdiv (Fin a) (Fin b) =
     (if b = 0 then (if a = 0 then NaN else if a > 0 then PInf else NInf)
      else number (a / b))"
| "jdiv NaN y = NaN"
| "jdiv x NaN = NaN"
| "jdiv (Fin a) PInf = Fin 0"
| "jdiv (Fin a) NInf = Fin 0"
| "jdiv PInf (Fin b) = (if b \<ge> 0 then PInf else NInf)"
| "jdiv NInf (Fin b) = (if b \<ge> 0 then NInf else PInf)"
| "jdiv PInf PInf = NaN"
| "jdiv PInf NInf = NaN"
| "jdiv NInf PInf = NaN"
| "jdiv NInf NInf = NaN"

text \<open>
  \<^verbatim>\<open>Math.cos\<close> and \<^verbatim>\<open>Math.sin\<close> are NaN at an infinity and at NaN. \<^verbatim>\<open>Math.hypot\<close> is
  \<^verbatim>\<open>Infinity\<close> when an argument is infinite, else NaN when one is NaN; the squares do not
  overflow on their own.
\<close>

fun jcos :: "jsnum \<Rightarrow> jsnum" where
  "jcos (Fin a) = Fin (cos a)"
| "jcos x = NaN"

fun jsin :: "jsnum \<Rightarrow> jsnum" where
  "jsin (Fin a) = Fin (sin a)"
| "jsin x = NaN"

fun jhypot :: "jsnum \<Rightarrow> jsnum \<Rightarrow> jsnum" where
  "jhypot (Fin a) (Fin b) = number (sqrt (a * a + b * b))"
| "jhypot PInf y = PInf"
| "jhypot NInf y = PInf"
| "jhypot x PInf = PInf"
| "jhypot x NInf = PInf"
| "jhypot NaN y = NaN"
| "jhypot x NaN = NaN"

text \<open>The comparisons \<^verbatim>\<open><\<close>, \<^verbatim>\<open>>\<close> and \<^verbatim>\<open><=\<close>: false whenever an operand is NaN.\<close>

fun jlt :: "jsnum \<Rightarrow> jsnum \<Rightarrow> bool" where
  "jlt (Fin a) (Fin b) = (a < b)"
| "jlt NaN y = False"
| "jlt x NaN = False"
| "jlt PInf y = False"
| "jlt x NInf = False"
| "jlt NInf y = True"
| "jlt x PInf = True"

definition jgt :: "jsnum \<Rightarrow> jsnum \<Rightarrow> bool" where
  "jgt x y = jlt y x"

definition jle :: "jsnum \<Rightarrow> jsnum \<Rightarrow> bool" where
  "jle x y = (x \<noteq> NaN \<and> y \<noteq> NaN \<and> \<not> jlt y x)"

text \<open>\<^verbatim>\<open>Math.max\<close> and \<^verbatim>\<open>Math.min\<close> of two Numbers: NaN when an argument is NaN.\<close>

definition jmax :: "jsnum \<Rightarrow> jsnum \<Rightarrow> jsnum" where
  "jmax x y = (if x = NaN \<or> y = NaN then NaN else if jlt x y then y else x)"

definition jmin :: "jsnum \<Rightarrow> jsnum \<Rightarrow> jsnum" where
  "jmin x y = (if x = NaN \<or> y = NaN then NaN else if jlt y x then y else x)"

text \<open>\<^verbatim>\<open>v || 0\<close> on a Number: zero and NaN are falsy.\<close>

definition orZero :: "jsnum \<Rightarrow> jsnum" where
  "orZero v = (if v = NaN \<or> v = Fin 0 then Fin 0 else v)"

subsection \<open>Constants\<close>

definition GAME_TICK_RATE :: real where "GAME_TICK_RATE = 45"
definition GAME_DT :: real where "GAME_DT = 1 / GAME_TICK_RATE"
definition MAP_WIDTH :: real where "MAP_WIDTH = 1250"
definition MAP_HEIGHT :: real where "MAP_HEIGHT = 650"

section \<open>Data model\<close>

record wall =
  wall_x :: real
  wall_y :: real
  wall_w :: real
  wall_h :: real

record pillar =
  pil_x :: real
  pil_y :: real
  pil_r :: real

text \<open>The object \<^verbatim>\<open>{ walls, pillars, width, height }\<close> that \<^verbatim>\<open>generateMap\<close> returns.\<close>

record arena =
  walls :: "wall list"
  pillars :: "pillar list"
  width :: real
  height :: real

text \<open>
  A queued client input \<^verbatim>\<open>{ seq, turn, thrust, fire }\<close>; \<open>turn\<close> and \<open>thrust\<close> are the
  Numbers the client sent, whatever they are.
\<close>

record input =
  i_seq :: int
  i_turn :: jsnum
  i_thrust :: jsnum
  i_fire :: bool

record player =
  p_id :: string
  p_name :: string
  p_x :: jsnum
  p_y :: jsnum
  p_a :: jsnum
  p_vx :: jsnum
  p_vy :: jsnum
  p_hp :: int
  p_kills :: int
  p_inputs :: "input list"
  p_lastInputSeq :: int
  p_ready :: bool

record bullet =
  b_id :: string
  b_x :: jsnum
  b_y :: jsnum
  b_vx :: jsnum
  b_vy :: jsnum
  b_owner :: string
  b_life :: real

subsection \<open>Events sent to the room's channel\<close>

text \<open>The entries of \<^verbatim>\<open>players-list\<close> and of the \<^verbatim>\<open>players\<close> array of \<^verbatim>\<open>game-state\<close>.\<close>

record playerView =
  v_id :: string
  v_name :: string
  v_x :: jsnum
  v_y :: jsnum
  v_a :: jsnum
  v_hp :: int
  v_kills :: int
  v_ready :: bool

record bulletView =
  bv_id :: string
  bv_x :: jsnum
  bv_y :: jsnum
  bv_vx :: jsnum
  bv_vy :: jsnum

text \<open>An entry of \<^verbatim>\<open>rankings\<close>, and the winner: \<open>rk_id = None\<close> is \<^verbatim>\<open>id: null\<close>.\<close>

record ranking =
  rk_id :: "string option"
  rk_name :: string
  rk_kills :: int

datatype hitType = Hit | Killed

record gameEvent =
  ge_type :: hitType
  ge_target :: "string option"
  ge_by :: string
  ge_obstacle :: bool
  ge_x :: jsnum
  ge_y :: jsnum

datatype event =
    PlayersList "playerView list"
  | PlayerLeft string
  | PlayerReadyUpdate string bool
  | MatchStarted int
  | TimerUpdate int
  | MatchEnded "ranking list" "ranking option"
  | GameEvent gameEvent
  | GameState nat int "playerView list" "bulletView list" arena int

subsection \<open>The room\<close>

text \<open>
  \<^verbatim>\<open>players\<close> and \<^verbatim>\<open>bullets\<close> are JavaScript Maps: insertion-ordered, one entry per key.
  They are association lists; \<open>map_of\<close> is \<^verbatim>\<open>get\<close>, \<open>AList.update\<close> is \<^verbatim>\<open>set\<close> (an
  existing key keeps its place, a new one goes last) and \<open>AList.delete\<close> is \<^verbatim>\<open>delete\<close>.
  \<open>timerInterval\<close> and \<open>interval\<close> say whether the timer handle is live; \<open>emitted\<close> is what
  \<^verbatim>\<open>this.io.to(this.name).emit\<close> has sent so far, oldest first.
\<close>

record room =
  name :: string
  players :: "(string \<times> player) list"
  bullets :: "(string \<times> bullet) list"
  seq :: int
  map_arena :: arena
  matchDuration :: int
  timeLeft :: int
  matchRunning :: bool
  timerInterval :: bool
  interval :: bool
  emitted :: "event list"

section \<open>Map generation\<close>

definition isOverlapping :: "wall \<Rightarrow> wall \<Rightarrow> bool" where
  "isOverlapping a b =
     (wall_x a < wall_x b + wall_w b \<and>
      wall_x a + wall_w a > wall_x b \<and>
      wall_y a < wall_y b + wall_h b \<and>
      wall_y a + wall_h a > wall_y b)"

definition MAX_TRIES :: nat where "MAX_TRIES = 100"
definition WALL_COUNT :: nat where "WALL_COUNT = 8"

text \<open>One candidate wall: the body of the \<^verbatim>\<open>while\<close> loop up to \<^verbatim>\<open>newWall\<close>.\<close>

definition newWall :: "env \<Rightarrow> wall \<times> env" where
  "newWall e =
     (case mathRandom e of (r0, e0) \<Rightarrow>
      let isHorizontal = (r0 > 0.5) in
      case mathRandom e0 of (r1, e1) \<Rightarrow>
      let w = (if isHorizontal then 150 + r1 * 150 else 50 + r1 * 40) in
      case mathRandom e1 of (r2, e2) \<Rightarrow>
      let h = (if isHorizontal then 50 + r2 * 40 else 100 + r2 * 100) in
      case mathRandom e2 of (r3, e3) \<Rightarrow>
      let x = r3 * (MAP_WIDTH - w - 20) in
      case mathRandom e3 of (r4, e4) \<Rightarrow>
      let y = r4 * (MAP_HEIGHT - h - 20) in
      (\<lparr>wall_x = x, wall_y = y, wall_w = w, wall_h = h\<rparr>, e4))"

text \<open>
  The \<^verbatim>\<open>while (walls.length < WALL_COUNT && tries < MAX_TRIES)\<close> loop. It returns the walls,
  the final value of \<^verbatim>\<open>tries\<close> and the environment.
\<close>

function wallLoop :: "wall list \<Rightarrow> nat \<Rightarrow> env \<Rightarrow> wall list \<times> nat \<times> env" where
  "wallLoop ws tries e =
     (if length ws < WALL_COUNT \<and> tries < MAX_TRIES then
        (case newWall e of (nw, e') \<Rightarrow>
           let overlaps = list_ex (\<lambda>wall. isOverlapping wall nw) ws in
           if \<not> overlaps then wallLoop (ws @ [nw]) (tries + 1) e'
           else wallLoop ws (tries + 1) e')
      else (ws, tries, e))"
  by pat_completeness auto
termination
  by (relation "measure (\<lambda>(ws, tries, e). MAX_TRIES - tries)") auto

declare wallLoop.simps [simp del]

fun pillarLoop :: "nat \<Rightarrow> env \<Rightarrow> pillar list \<times> env" where
  "pillarLoop 0 e = ([], e)"
| "pillarLoop (Suc n) e =
     (case mathRandom e of (r0, e0) \<Rightarrow>
      case mathRandom e0 of (r1, e1) \<Rightarrow>
      case mathRandom e1 of (r2, e2) \<Rightarrow>
      case pillarLoop n e2 of (ps, e3) \<Rightarrow>
      (\<lparr>pil_x = r0 * MAP_WIDTH, pil_y = r1 * MAP_HEIGHT, pil_r = 40 + r2 * 30\<rparr> # ps, e3))"

definition generateMap :: "env \<Rightarrow> arena \<times> env" where
  "generateMap e =
     (case wallLoop [] 0 e of (ws, tries, e1) \<Rightarrow>
      case pillarLoop 6 e1 of (ps, e2) \<Rightarrow>
      (\<lparr>walls = ws, pillars = ps, width = MAP_WIDTH, height = MAP_HEIGHT\<rparr>, e2))"

section \<open>Collision and spawn\<close>

text \<open>
  \<^verbatim>\<open>collidesWithObstacles(x, y, radius = 15)\<close> on the room's map; every call in the source
  passes the radius. The point is a position of a player or a bullet, or a sampled spawn
  point.
\<close>

definition collidesWithObstacles :: "arena \<Rightarrow> jsnum \<Rightarrow> jsnum \<Rightarrow> real \<Rightarrow> bool" where
  "collidesWithObstacles m x y radius =
     (list_ex (\<lambda>w. jgt (jadd x (Fin radius)) (Fin (wall_x w)) \<and>
                   jlt (jsub x (Fin radius)) (Fin (wall_x w + wall_w w)) \<and>
                   jgt (jadd y (Fin radius)) (Fin (wall_y w)) \<and>
                   jlt (jsub y (Fin radius)) (Fin (wall_y w + wall_h w))) (walls m)
      \<or> list_ex (\<lambda>p. let dx = jsub x (Fin (pil_x p)); dy = jsub y (Fin (pil_y p))
                     in jlt (jadd (jmul dx dx) (jmul dy dy)) (Fin ((radius + pil_r p) ^ 2)))
           (pillars m))"

text \<open>
  The \<^verbatim>\<open>do ... while\<close> loop of \<^verbatim>\<open>getSafeSpawn\<close>; \<open>tries\<close> is the counter before the
  iteration. It returns the last sampled point, the final counter and the environment.
\<close>

function spawnLoop :: "arena \<Rightarrow> nat \<Rightarrow> env \<Rightarrow> (real \<times> real) \<times> nat \<times> env" where
  "spawnLoop m tries e =
     (case mathRandom e of (rx, e1) \<Rightarrow>
      case mathRandom e1 of (ry, e2) \<Rightarrow>
      let x = rx * MAP_WIDTH; y = ry * MAP_HEIGHT in
      if tries + 1 > 1000 then ((x, y), tries + 1, e2)
      else if collidesWithObstacles m (Fin x) (Fin y) 20 then spawnLoop m (tries + 1) e2
      else ((x, y), tries + 1, e2))"
  by pat_completeness auto
termination
  by (relation "measure (\<lambda>(m, tries, e). 1001 - tries)") auto

declare spawnLoop.simps [simp del]

definition getSafeSpawn :: "arena \<Rightarrow> env \<Rightarrow> (real \<times> real) \<times> env" where
  "getSafeSpawn m e = (case spawnLoop m 0 e of (p, tries, e') \<Rightarrow> (p, e'))"

section \<open>Broadcasting\<close>

definition broadcast :: "event \<Rightarrow> room \<Rightarrow> room" where
  "broadcast ev r = r\<lparr>emitted := emitted r @ [ev]\<rparr>"

text \<open>
  \<^verbatim>\<open>+v.toFixed(2)\<close>: the nearest multiple of one hundredth, the larger magnitude on a tie;
  from \<open>10\<^sup>2\<^sup>1\<close> on \<^verbatim>\<open>toFixed\<close> prints the number itself, and so it does for the
  infinities and NaN.
\<close>

fun toFixed2 :: "jsnum \<Rightarrow> jsnum" where
  "toFixed2 (Fin v) =
     Fin (if \<bar>v\<bar> \<ge> 10 ^ 21 then v
          else if v < 0 then - (of_int \<lfloor>(- v) * 100 + 1 / 2\<rfloor> / 100)
          else of_int \<lfloor>v * 100 + 1 / 2\<rfloor> / 100)"
| "toFixed2 x = x"

text \<open>\<^verbatim>\<open>p.kills || 0\<close> and \<^verbatim>\<open>!!p.ready\<close> leave a number and a boolean as they are.\<close>

definition playerViewOf :: "player \<Rightarrow> playerView" where
  "playerViewOf p =
     \<lparr>v_id = p_id p, v_name = p_name p, v_x = toFixed2 (p_x p), v_y = toFixed2 (p_y p),
      v_a = toFixed2 (p_a p), v_hp = p_hp p, v_kills = p_kills p, v_ready = p_ready p\<rparr>"

definition bulletViewOf :: "bullet \<Rightarrow> bulletView" where
  "bulletViewOf b =
     \<lparr>bv_id = b_id b, bv_x = toFixed2 (b_x b), bv_y = toFixed2 (b_y b),
      bv_vx = toFixed2 (b_vx b), bv_vy = toFixed2 (b_vy b)\<rparr>"

definition broadcastPlayerList :: "room \<Rightarrow> room" where
  "broadcastPlayerList r =
     broadcast (PlayersList (map (\<lambda>(k, p). playerViewOf p) (players r))) r"

section \<open>Match control\<close>

definition stopTimer :: "room \<Rightarrow> room" where
  "stopTimer r = (if timerInterval r then r\<lparr>timerInterval := False\<rparr> else r)"

text \<open>The \<^verbatim>\<open>for (const p of this.players.values())\<close> loop of \<^verbatim>\<open>startMatch\<close>.\<close>

fun resetPlayers ::
  "arena \<Rightarrow> (string \<times> player) list \<Rightarrow> env \<Rightarrow> (string \<times> player) list \<times> env" where
  "resetPlayers m [] e = ([], e)"
| "resetPlayers m ((k, p) # ps) e =
     (case getSafeSpawn m e of ((x, y), e1) \<Rightarrow>
      let p' = p\<lparr>p_hp := 100, p_vx := Fin 0, p_vy := Fin 0, p_x := Fin x, p_y := Fin y,
                 p_kills := 0,
                 p_inputs := [], p_lastInputSeq := 0, p_ready := False\<rparr> in
      case resetPlayers m ps e1 of (ps', e2) \<Rightarrow> ((k, p') # ps', e2))"

definition startMatch :: "env \<Rightarrow> room \<Rightarrow> env \<times> room" where
  "startMatch e r =
     (if matchRunning r then (e, r)
      else
        case resetPlayers (map_arena r) (players r) e of (ps, e1) \<Rightarrow>
        let r1 = r\<lparr>players := ps, bullets := [], timeLeft := matchDuration r,
                   matchRunning := True\<rparr>;
            r2 = (stopTimer r1)\<lparr>timerInterval := True\<rparr>;
            r3 = broadcast (MatchStarted (matchDuration r2)) r2
        in (e1, broadcastPlayerList r3))"

text \<open>
  \<^verbatim>\<open>Array.prototype.sort\<close> with a comparator is stable: \<open>x\<close> goes before the first element
  it does not have to follow.
\<close>

fun insertBy :: "('a \<Rightarrow> 'a \<Rightarrow> int) \<Rightarrow> 'a \<Rightarrow> 'a list \<Rightarrow> 'a list" where
  "insertBy cmp x [] = [x]"
| "insertBy cmp x (y # ys) = (if cmp x y \<le> 0 then x # y # ys else y # insertBy cmp x ys)"

definition sortBy :: "('a \<Rightarrow> 'a \<Rightarrow> int) \<Rightarrow> 'a list \<Rightarrow> 'a list" where
  "sortBy cmp xs = foldr (insertBy cmp) xs []"

definition rankingOf :: "player \<Rightarrow> ranking" where
  "rankingOf p = \<lparr>rk_id = Some (p_id p), rk_name = p_name p, rk_kills = p_kills p\<rparr>"

definition computeRankings :: "(string \<times> player) list \<Rightarrow> ranking list" where
  "computeRankings ps =
     sortBy (\<lambda>a b. rk_kills b - rk_kills a) (map (\<lambda>(k, p). rankingOf p) ps)"

definition computeWinner :: "ranking list \<Rightarrow> ranking option" where
  "computeWinner rankings =
     (case rankings of
        [] \<Rightarrow> None
      | best # _ \<Rightarrow>
          let topKills = rk_kills best;
              allZero = list_all (\<lambda>r. rk_kills r = 0) rankings
          in if allZero then None
             else
               let topCount = length (filter (\<lambda>r. rk_kills r = topKills) rankings)
               in if topCount > 1
                  then Some \<lparr>rk_id = None, rk_name = ''Draw'', rk_kills = topKills\<rparr>
                  else Some best)"

definition endMatch :: "room \<Rightarrow> room" where
  "endMatch r =
     (if \<not> matchRunning r then r
      else
        let r1 = stopTimer (r\<lparr>matchRunning := False\<rparr>);
            rankings = computeRankings (players r1);
            winner = computeWinner rankings;
            r2 = r1\<lparr>players := map (\<lambda>(k, p). (k, p\<lparr>p_ready := False\<rparr>)) (players r1)\<rparr>;
            r3 = broadcast (MatchEnded rankings winner) r2
        in broadcastPlayerList r3)"

definition updateTimer :: "room \<Rightarrow> room" where
  "updateTimer r =
     (if \<not> matchRunning r then r
      else
        let r1 = r\<lparr>timeLeft := timeLeft r - 1\<rparr>;
            r2 = broadcast (TimerUpdate (timeLeft r1)) r1
        in if timeLeft r2 \<le> 0 then endMatch r2 else r2)"

definition restartMatch :: "env \<Rightarrow> room \<Rightarrow> env \<times> room" where
  "restartMatch e r = (if \<not> matchRunning r then startMatch e r else (e, r))"

section \<open>Players\<close>

text \<open>
  \<^verbatim>\<open>addPlayer(socket, name = "Player")\<close>: only \<^verbatim>\<open>socket.id\<close> is used; \<open>None\<close> is a call
  without a name.
\<close>

definition addPlayer :: "string \<Rightarrow> string option \<Rightarrow> env \<Rightarrow> room \<Rightarrow> env \<times> room" where
  "addPlayer socketId nm e r =
     (case getSafeSpawn (map_arena r) e of ((x, y), e1) \<Rightarrow>
      let prev = map_of (players r) socketId;
          kills = (case prev of None \<Rightarrow> 0 | Some q \<Rightarrow> p_kills q)
      in case mathRandom e1 of (ra, e2) \<Rightarrow>
         let p = \<lparr>p_id = socketId,
                  p_name = (case nm of None \<Rightarrow> ''Player'' | Some n \<Rightarrow> n),
                  p_x = Fin x, p_y = Fin y, p_a = Fin (ra * pi * 2), p_vx = Fin 0,
                  p_vy = Fin 0, p_hp = 100,
                  p_kills = kills, p_inputs = [], p_lastInputSeq = 0, p_ready = False\<rparr>;
             r1 = r\<lparr>players := AList.update socketId p (players r)\<rparr>
         in (e2, broadcastPlayerList r1))"

text \<open>
  The third component says whether \<^verbatim>\<open>gameRooms.delete(this.name)\<close> ran: the room took
  itself out of the registry.
\<close>

definition removePlayer :: "string \<Rightarrow> env \<Rightarrow> room \<Rightarrow> env \<times> room \<times> bool" where
  "removePlayer socketId e r =
     (let existed = (map_of (players r) socketId \<noteq> None) in
      if existed then
        let r0 = r\<lparr>players := AList.delete socketId (players r)\<rparr>;
            r1 = broadcast (PlayerLeft socketId) r0;
            r2 = broadcastPlayerList r1
        in if length (players r2) = 0 then (e, stopTimer (r2\<lparr>interval := False\<rparr>), True)
           else
             let allReady = list_all (\<lambda>(k, pl). p_ready pl) (players r2)
             in if allReady \<and> \<not> matchRunning r2
                then (case startMatch e r2 of (e', r3) \<Rightarrow> (e', r3, False))
                else (e, r2, False)
      else (e, r, False))"

definition receiveInput :: "string \<Rightarrow> input \<Rightarrow> room \<Rightarrow> room" where
  "receiveInput socketId inp r =
     (case map_of (players r) socketId of
        None \<Rightarrow> r
      | Some p \<Rightarrow>
          if \<not> matchRunning r then r
          else r\<lparr>players := AList.update socketId (p\<lparr>p_inputs := p_inputs p @ [inp]\<rparr>)
                              (players r)\<rparr>)"

definition setPlayerReady :: "string \<Rightarrow> bool \<Rightarrow> env \<Rightarrow> room \<Rightarrow> env \<times> room" where
  "setPlayerReady socketId ready e r =
     (case map_of (players r) socketId of
        None \<Rightarrow> (e, r)
      | Some p \<Rightarrow>
          let r1 = r\<lparr>players := AList.update socketId (p\<lparr>p_ready := ready\<rparr>) (players r)\<rparr>;
              r2 = broadcast (PlayerReadyUpdate socketId ready) r1;
              r3 = broadcastPlayerList r2;
              total = length (players r3)
          in if total > 0 then
               let allReady = list_all (\<lambda>(k, pl). p_ready pl) (players r3)
               in if allReady then startMatch e r3 else (e, r3)
             else (e, r3))"

section \<open>Bullets\<close>

definition digitChar :: "nat \<Rightarrow> char" where
  "digitChar d = ''0123456789abcdefghijklmnopqrstuvwxyz'' ! d"

text \<open>The decimal digits of \<^verbatim>\<open>Date.now()\<close> in the template string.\<close>

fun showNat :: "nat \<Rightarrow> string" where
  "showNat n = (if n < 10 then [digitChar n] else showNat (n div 10) @ [digitChar (n mod 10)])"

declare showNat.simps [simp del]

text \<open>
  \<^verbatim>\<open>Math.random().toString(36).slice(2, 6)\<close>: the string is \<^verbatim>\<open>0.\<close> and the base-36 digits of
  the number (\<^verbatim>\<open>0\<close> alone for zero), so the slice is its first four digits, fewer when the
  expansion ends earlier. \<open>digits36 n v\<close> gives at most \<open>n\<close> digits of \<open>0 \<le> v < 1\<close>, those
  of the exact expansion; where a shorter digit string already identifies the double,
  \<^verbatim>\<open>toString(36)\<close> prints that one.
\<close>

fun digits36 :: "nat \<Rightarrow> real \<Rightarrow> string" where
  "digits36 0 v = []"
| "digits36 (Suc n) v =
     (if v = 0 then []
      else let d = nat \<lfloor>v * 36\<rfloor> in digitChar d # digits36 n (v * 36 - real d))"

definition randomSuffix :: "real \<Rightarrow> string" where
  "randomSuffix v = digits36 4 v"

definition spawnBullet ::
  "string \<Rightarrow> jsnum \<Rightarrow> jsnum \<Rightarrow> jsnum \<Rightarrow> env \<Rightarrow> room \<Rightarrow> env \<times> room" where
  "spawnBullet owner x y angle e r =
     (case dateNow e of (now, e1) \<Rightarrow>
      case mathRandom e1 of (rv, e2) \<Rightarrow>
      let ident = owner @ ''-'' @ showNat now @ ''-'' @ randomSuffix rv;
          speed = Fin 400;
          vx = jmul (jcos angle) speed;
          vy = jmul (jsin angle) speed
      in (e2, r\<lparr>bullets := AList.update ident
                   \<lparr>b_id = ident, b_x = x, b_y = y, b_vx = vx, b_vy = vy, b_owner = owner,
                    b_life = 2.5\<rparr> (bullets r)\<rparr>))"

section \<open>The simulation tick\<close>

text \<open>
  The \<^verbatim>\<open>while (p.inputs.length > 0)\<close> loop for the player stored under \<open>ident\<close>: the queue
  is what is left of \<open>p.inputs\<close>, \<open>p\<close> the player object as mutated so far. JavaScript
  multiplies from the left: \<^verbatim>\<open>Math.cos(p.a) * thrust * accel * dt\<close> is
  \<^verbatim>\<open>((Math.cos(p.a) * thrust) * accel) * dt\<close>. \<open>ratio\<close> is computed only when the speed exceeds
  \<open>maxSpeed\<close>.
\<close>

fun drainInputs ::
  "string \<Rightarrow> input list \<Rightarrow> player \<Rightarrow> env \<Rightarrow> room \<Rightarrow> player \<times> env \<times> room" where
  "drainInputs ident [] p e r = (p, e, r)"
| "drainInputs ident (inp # rest) p e r =
     (let dt = Fin GAME_DT; turnSpeed = Fin 8; accel = Fin 700; maxSpeed = Fin 600;
          a = jadd (p_a p) (jmul (jmul (orZero (i_turn inp)) turnSpeed) dt);
          thrust = orZero (i_thrust inp);
          vx = jadd (p_vx p) (jmul (jmul (jmul (jcos a) thrust) accel) dt);
          vy = jadd (p_vy p) (jmul (jmul (jmul (jsin a) thrust) accel) dt);
          spd = jhypot vx vy;
          ratio = jdiv maxSpeed spd;
          p' = p\<lparr>p_inputs := rest, p_lastInputSeq := i_seq inp, p_a := a,
                 p_vx := (if jgt spd maxSpeed then jmul vx ratio else vx),
                 p_vy := (if jgt spd maxSpeed then jmul vy ratio else vy)\<rparr>
      in case (if i_fire inp
               then spawnBullet ident (jadd (p_x p') (jmul (jcos a) (Fin 20)))
                      (jadd (p_y p') (jmul (jsin a) (Fin 20))) a e r
               else (e, r)) of
           (e', r') \<Rightarrow> drainInputs ident rest p' e' r')"

text \<open>
  The loop over \<^verbatim>\<open>this.players.entries()\<close>: each player's queue is drained and the player
  written back under its key (in JavaScript the object is mutated in place).
\<close>

fun processInputs :: "(string \<times> player) list \<Rightarrow> env \<Rightarrow> room \<Rightarrow> env \<times> room" where
  "processInputs [] e r = (e, r)"
| "processInputs ((ident, p) # ps) e r =
     (case drainInputs ident (p_inputs p) p e r of
        (p', e', r') \<Rightarrow>
          processInputs ps e' (r'\<lparr>players := AList.update ident p' (players r')\<rparr>))"

definition movePlayer :: "arena \<Rightarrow> player \<Rightarrow> player" where
  "movePlayer m p =
     (let dt = Fin GAME_DT; oldX = p_x p; oldY = p_y p;
          p1 = p\<lparr>p_x := jadd (p_x p) (jmul (p_vx p) dt), p_y := jadd (p_y p) (jmul (p_vy p) dt)\<rparr>;
          p2 = p1\<lparr>p_vx := jmul (p_vx p1) (Fin 0.95), p_vy := jmul (p_vy p1) (Fin 0.95)\<rparr>;
          p3 = (if collidesWithObstacles m (p_x p2) (p_y p2) 20
                then p2\<lparr>p_x := oldX, p_y := oldY, p_vx := Fin 0, p_vy := Fin 0\<rparr> else p2)
      in p3\<lparr>p_x := jmax (Fin 0) (jmin (Fin MAP_WIDTH) (p_x p3)),
            p_y := jmax (Fin 0) (jmin (Fin MAP_HEIGHT) (p_y p3))\<rparr>)"

definition movePlayers :: "room \<Rightarrow> room" where
  "movePlayers r = r\<lparr>players := map (\<lambda>(k, p). (k, movePlayer (map_arena r) p)) (players r)\<rparr>"

text \<open>The bullet after \<^verbatim>\<open>b.x += b.vx * dt; b.y += b.vy * dt; b.life -= dt\<close>.\<close>

definition advanceBullet :: "bullet \<Rightarrow> bullet" where
  "advanceBullet b =
     b\<lparr>b_x := jadd (b_x b) (jmul (b_vx b) (Fin GAME_DT)),
       b_y := jadd (b_y b) (jmul (b_vy b) (Fin GAME_DT)),
       b_life := b_life b - GAME_DT\<rparr>"

text \<open>
  The inner \<^verbatim>\<open>for (const [pid, p] of this.players.entries())\<close> loop stops at the first
  player that is not the owner and lies within 20 units of the bullet.
\<close>

definition findHit :: "(string \<times> player) list \<Rightarrow> bullet \<Rightarrow> (string \<times> player) option" where
  "findHit ps b =
     List.find (\<lambda>(pid, p). p_id p \<noteq> b_owner b \<and>
                  (let dx = jsub (b_x b) (p_x p); dy = jsub (b_y b) (p_y p)
                   in jle (jadd (jmul dx dx) (jmul dy dy)) (Fin (20 * 20)))) ps"

text \<open>
  One iteration of the loop over \<^verbatim>\<open>this.bullets.entries()\<close>. The victim and the killer are
  objects of the player Map, mutated in place: \<open>AList.map_entry\<close> under their keys.
\<close>

definition stepBullet :: "string \<times> bullet \<Rightarrow> env \<times> room \<Rightarrow> env \<times> room" where
  "stepBullet kb s =
     (case kb of (bid, b0) \<Rightarrow> case s of (e, r) \<Rightarrow>
      let b = advanceBullet b0 in
      if b_life b \<le> 0 then (e, r\<lparr>bullets := AList.delete bid (bullets r)\<rparr>)
      else if collidesWithObstacles (map_arena r) (b_x b) (b_y b) 2 then
        (e, (broadcast (GameEvent \<lparr>ge_type = Hit, ge_target = None, ge_by = b_owner b,
                                   ge_obstacle = True, ge_x = b_x b, ge_y = b_y b\<rparr>) r)
              \<lparr>bullets := AList.delete bid (bullets r)\<rparr>)
      else
        (case findHit (players r) b of
          None \<Rightarrow> (e, r\<lparr>bullets := AList.update bid b (bullets r)\<rparr>)
        | Some (pid, p) \<Rightarrow>
            let r1 = r\<lparr>players := AList.map_entry pid (\<lambda>q. q\<lparr>p_hp := p_hp q - 20\<rparr>) (players r),
                       bullets := AList.delete bid (bullets r)\<rparr>
            in if p_hp p - 20 \<le> 0 then
                 let r2 = r1\<lparr>players := AList.map_entry (b_owner b)
                                (\<lambda>killer. killer\<lparr>p_kills := p_kills killer + 1\<rparr>) (players r1)\<rparr>;
                     r3 = r2\<lparr>players := AList.map_entry pid (\<lambda>q. q\<lparr>p_hp := 100\<rparr>) (players r2)\<rparr>
                 in (case getSafeSpawn (map_arena r3) e of
                      ((x, y), e') \<Rightarrow>
                        let r4 = r3\<lparr>players := AList.map_entry pid
                                                 (\<lambda>q. q\<lparr>p_x := Fin x, p_y := Fin y\<rparr>)
                                                 (players r3)\<rparr>
                        in (e', broadcast (GameEvent \<lparr>ge_type = Killed, ge_target = Some pid,
                                            ge_by = b_owner b, ge_obstacle = False,
                                            ge_x = Fin x, ge_y = Fin y\<rparr>) r4))
               else (e, broadcast (GameEvent \<lparr>ge_type = Hit, ge_target = Some pid,
                                     ge_by = b_owner b, ge_obstacle = False,
                                     ge_x = p_x p, ge_y = p_y p\<rparr>) r1)))"

definition moveBullets :: "env \<Rightarrow> room \<Rightarrow> env \<times> room" where
  "moveBullets e r = fold stepBullet (bullets r) (e, r)"

definition snapshot :: "env \<Rightarrow> room \<Rightarrow> env \<times> room" where
  "snapshot e r =
     (case dateNow e of (t, e') \<Rightarrow>
      (e', broadcast (GameState t (seq r) (map (\<lambda>(k, p). playerViewOf p) (players r))
                        (map (\<lambda>(k, b). bulletViewOf b) (bullets r)) (map_arena r) (timeLeft r)) r))"

definition tick :: "env \<Rightarrow> room \<Rightarrow> env \<times> room" where
  "tick e r =
     (if \<not> matchRunning r then (e, r)
      else
        let r0 = r\<lparr>seq := seq r + 1\<rparr> in
        case processInputs (players r0) e r0 of (e1, r1) \<Rightarrow>
        case moveBullets e1 (movePlayers r1) of (e2, r2) \<Rightarrow>
        snapshot e2 r2)"

section \<open>The room registry and its socket handlers\<close>

text \<open>\<^verbatim>\<open>gameRooms\<close>, keyed by \<^verbatim>\<open>room.trim().toLowerCase()\<close> (ASCII letters and blanks here).\<close>

type_synonym registry = "string \<rightharpoonup> room"

definition isBlank :: "char \<Rightarrow> bool" where
  "isBlank c = (of_char c \<in> {9, 10, 11, 12, 13, 32 :: nat})"

definition trim :: "string \<Rightarrow> string" where
  "trim s = rev (dropWhile isBlank (rev (dropWhile isBlank s)))"

definition toLowerCase :: "string \<Rightarrow> string" where
  "toLowerCase s =
     map (\<lambda>c. if 65 \<le> (of_char c :: nat) \<and> (of_char c :: nat) \<le> 90
              then char_of (of_char c + 32 :: nat) else c) s"

definition roomKey :: "string \<Rightarrow> string" where
  "roomKey room = toLowerCase (trim room)"

text \<open>The constructor of \<^verbatim>\<open>GameRoom\<close>.\<close>

definition newGameRoom :: "string \<Rightarrow> env \<Rightarrow> room \<times> env" where
  "newGameRoom nm e =
     (case generateMap e of (m, e') \<Rightarrow>
      (\<lparr>name = nm, players = [], bullets = [], seq = 0, map_arena = m, matchDuration = 65,
        timeLeft = 65, matchRunning = False, timerInterval = False, interval = True,
        emitted = []\<rparr>, e'))"

text \<open>
  \<^verbatim>\<open>socket.on("game-join")\<close> and \<^verbatim>\<open>socket.on("game-input")\<close> for the connection \<open>socketId\<close>;
  the acknowledgement to the joining socket is not part of the registry.
\<close>

definition onGameJoin ::
  "string \<Rightarrow> string \<Rightarrow> string option \<Rightarrow> env \<Rightarrow> registry \<Rightarrow> env \<times> registry" where
  "onGameJoin socketId room nm e reg =
     (let key = roomKey room in
      case (case reg key of
              None \<Rightarrow> newGameRoom key e
            | Some g \<Rightarrow> (g, e)) of
        (g, e1) \<Rightarrow>
          case addPlayer socketId nm e1 g of (e2, g') \<Rightarrow> (e2, reg(key \<mapsto> g')))"

definition onGameInput :: "string \<Rightarrow> string \<Rightarrow> input \<Rightarrow> registry \<Rightarrow> registry" where
  "onGameInput socketId room inp reg =
     (let key = roomKey room in
      case reg key of
        None \<Rightarrow> reg
      | Some g \<Rightarrow> reg(key \<mapsto> receiveInput socketId inp g))"

section \<open>Sequences of room events\<close>

text \<open>
  The calls that reach a room: the socket handlers (\<^verbatim>\<open>game-join\<close>, \<^verbatim>\<open>game-leave\<close> and
  \<^verbatim>\<open>disconnect\<close>, \<^verbatim>\<open>game-input\<close>, \<^verbatim>\<open>player-ready\<close> and \<^verbatim>\<open>request-restart\<close>) and the two
  timers (the countdown and the simulation tick). \<open>run\<close> applies a sequence of them in
  order, threading the environment.
\<close>

datatype action =
    AddPlayer string "string option"
  | RemovePlayer string
  | ReceiveInput string input
  | SetPlayerReady string bool
  | UpdateTimer
  | Tick

fun step :: "action \<Rightarrow> env \<times> room \<Rightarrow> env \<times> room" where
  "step (AddPlayer sid nm) (e, r) = addPlayer sid nm e r"
| "step (RemovePlayer sid) (e, r) = (case removePlayer sid e r of (e', r', gone) \<Rightarrow> (e', r'))"
| "step (ReceiveInput sid inp) (e, r) = (e, receiveInput sid inp r)"
| "step (SetPlayerReady sid b) (e, r) = setPlayerReady sid b e r"
| "step UpdateTimer (e, r) = (e, updateTimer r)"
| "step Tick (e, r) = tick e r"

definition run :: "action list \<Rightarrow> env \<times> room \<Rightarrow> env \<times> room" where
  "run acts s = fold step acts s"

section \<open>Properties and notions of the specification\<close>

subsection \<open>The winner rule\<close>

definition killsOf :: "(string \<times> player) list \<Rightarrow> int list" where
  "killsOf ps = map (\<lambda>(k, p). p_kills p) ps"

text \<open>
  The winner rule as the specification words it: nobody when there are no players or when
  every player has zero kills; the synthetic Draw record when two or more players share the
  maximum kill count; otherwise the one player with the maximum.
\<close>

definition specWinner :: "(string \<times> player) list \<Rightarrow> ranking option" where
  "specWinner ps =
     (if ps = [] then None
      else if list_all (\<lambda>(k, p). p_kills p = 0) ps then None
      else
        let maxKills = Max (set (killsOf ps)) in
        if length (filter (\<lambda>(k, p). p_kills p = maxKills) ps) \<ge> 2
        then Some \<lparr>rk_id = None, rk_name = ''Draw'', rk_kills = maxKills\<rparr>
        else map_option (\<lambda>(k, p). rankingOf p) (List.find (\<lambda>(k, p). p_kills p = maxKills) ps))"

subsection \<open>Ready-gating, walls, the player invariant\<close>

text \<open>Every player of the list has \<open>ready = true\<close>.\<close>

definition allReady :: "(string \<times> player) list \<Rightarrow> bool" where
  "allReady ps = (\<forall>(k, p) \<in> set ps. p_ready p)"

text \<open>No two walls of the list overlap.\<close>

definition noOverlap :: "wall list \<Rightarrow> bool" where
  "noOverlap ws = (\<forall>i < length ws. \<forall>j < length ws. i \<noteq> j \<longrightarrow> \<not> isOverlapping (ws ! i) (ws ! j))"

text \<open>
  \<open>inRange lo hi x\<close> is \<^verbatim>\<open>lo <= x && x <= hi\<close> on the Number \<open>x\<close>: false for NaN and for the
  infinities.
\<close>

definition inRange :: "real \<Rightarrow> real \<Rightarrow> jsnum \<Rightarrow> bool" where
  "inRange lo hi x = (jle (Fin lo) x \<and> jle x (Fin hi))"


text \<open>
  The same with a parameter: when \<open>lax\<close> holds a coordinate may also be NaN.
\<close>

definition coordOk :: "bool \<Rightarrow> real \<Rightarrow> real \<Rightarrow> jsnum \<Rightarrow> bool" where
  "coordOk lax lo hi x = (inRange lo hi x \<or> (lax \<and> x = NaN))"

definition posInv :: "bool \<Rightarrow> player \<Rightarrow> bool" where
  "posInv lax p = (coordOk lax 0 MAP_WIDTH (p_x p) \<and> coordOk lax 0 MAP_HEIGHT (p_y p))"

definition playerInv :: "bool \<Rightarrow> player \<Rightarrow> bool" where
  "playerInv lax p =
     (0 \<le> p_hp p \<and> p_hp p \<le> 100 \<and> coordOk lax 0 MAP_WIDTH (p_x p) \<and>
      coordOk lax 0 MAP_HEIGHT (p_y p))"


subsection \<open>Bullet identities\<close>

text \<open>
  The identity \<^verbatim>\<open>spawnBullet\<close> derives in the environment \<open>e\<close>: owner, \<^verbatim>\<open>Date.now()\<close> and the
  random suffix.
\<close>

definition bulletIdent :: "string \<Rightarrow> env \<Rightarrow> string" where
  "bulletIdent owner e = owner @ ''-'' @ showNat (clk e 0) @ ''-'' @ randomSuffix (rnd e 0)"

text \<open>A sequence of bullet spawns (owner, position, angle), one after the other.\<close>

fun spawnAll :: "(string \<times> jsnum \<times> jsnum \<times> jsnum) list \<Rightarrow> env \<Rightarrow> room \<Rightarrow> env \<times> room" where
  "spawnAll [] e r = (e, r)"
| "spawnAll ((owner, x, y, a) # ss) e r =
     (case spawnBullet owner x y a e r of (e', r') \<Rightarrow> spawnAll ss e' r')"

text \<open>A bullet Map with one entry per key, each bullet stored under its own identity.\<close>

definition idsOk :: "(string \<times> bullet) list \<Rightarrow> bool" where
  "idsOk bs = (distinct (map fst bs) \<and> (\<forall>(k, b) \<in> set bs. b_id b = k))"

subsection \<open>The flight of one bullet\<close>

text \<open>
  \<open>beforeBullet bid s\<close> is the state in which the bullet loop of the tick reaches the
  bullet stored under \<open>bid\<close>: the bullets before it in the Map have been processed.
  \<open>strikes r b\<close> are the two tests of the loop body on the moved bullet: it collides with an
  obstacle at radius 2, or a player other than its owner is within 20 units.
\<close>

definition beforeBullet :: "string \<Rightarrow> env \<times> room \<Rightarrow> env \<times> room" where
  "beforeBullet bid s = fold stepBullet (takeWhile (\<lambda>(k, b). k \<noteq> bid) (bullets (snd s))) s"

definition strikes :: "room \<Rightarrow> bullet \<Rightarrow> bool" where
  "strikes r b =
     (collidesWithObstacles (map_arena r) (b_x b) (b_y b) 2 \<or> findHit (players r) b \<noteq> None)"

text \<open>The state of a tick after its input loop: the queued inputs are applied, bullets spawned.\<close>

definition afterInputs :: "env \<times> room \<Rightarrow> env \<times> room" where
  "afterInputs s =
     (case s of (e, r) \<Rightarrow>
        processInputs (players (r\<lparr>seq := seq r + 1\<rparr>)) e (r\<lparr>seq := seq r + 1\<rparr>))"

text \<open>
  In the tick that starts in state \<open>s\<close>, the bullet \<open>b\<close> that the store holds under \<open>bid\<close>
  after the input loop strikes nothing when its turn in the bullet loop comes (or its
  lifetime ends in this tick, and nothing is tested).
\<close>

definition noStrike :: "string \<Rightarrow> env \<times> room \<Rightarrow> bullet \<Rightarrow> bool" where
  "noStrike bid s b =
     (b_life (advanceBullet b) \<le> 0 \<or>
      \<not> strikes (snd (beforeBullet bid (fst (afterInputs s), movePlayers (snd (afterInputs s)))))
          (advanceBullet b))"

text \<open>
  A tick that is clear for the bullet stored under \<open>bid\<close>: no input of the tick spawns a
  bullet under that identity, and the bullet strikes nothing.
\<close>

definition clearTick :: "string \<Rightarrow> env \<times> room \<Rightarrow> bool" where
  "clearTick bid s =
     (map_of (bullets (snd (afterInputs s))) bid = map_of (bullets (snd s)) bid \<and>
      (case map_of (bullets (snd s)) bid of None \<Rightarrow> True | Some b \<Rightarrow> noStrike bid s b))"

text \<open>
  Along the sequence of events the match is running before each event and every tick is
  clear for the bullet.
\<close>

fun undisturbed :: "string \<Rightarrow> action list \<Rightarrow> env \<times> room \<Rightarrow> bool" where
  "undisturbed bid [] s = True"
| "undisturbed bid (a # acts) s =
     (matchRunning (snd s) \<and> (a \<noteq> Tick \<or> clearTick bid s) \<and> undisturbed bid acts (step a s))"

subsection \<open>Velocities that are numbers\<close>



section \<open>Example data\<close>

text \<open>An arena with one wall and one pillar, the pillar at the centre of the map.\<close>

definition exArena :: arena where
  "exArena = \<lparr>walls = [\<lparr>wall_x = 800, wall_y = 400, wall_w = 200, wall_h = 60\<rparr>],
              pillars = [\<lparr>pil_x = 625, pil_y = 325, pil_r = 50\<rparr>],
              width = MAP_WIDTH, height = MAP_HEIGHT\<rparr>"

definition mkPlayer :: "string \<Rightarrow> int \<Rightarrow> bool \<Rightarrow> player" where
  "mkPlayer i k rd =
     \<lparr>p_id = i, p_name = i, p_x = Fin 100, p_y = Fin 100, p_a = Fin 0, p_vx = Fin 0,
      p_vy = Fin 0, p_hp = 100,
      p_kills = k, p_inputs = [], p_lastInputSeq = 0, p_ready = rd\<rparr>"

definition mkRoom :: "(string \<times> player) list \<Rightarrow> bool \<Rightarrow> room" where
  "mkRoom ps running =
     \<lparr>name = ''lobby'', players = ps, bullets = [], seq = 0, map_arena = exArena,
      matchDuration = 65, timeLeft = 65, matchRunning = running, timerInterval = running,
      interval = True, emitted = []\<rparr>"

definition exInput :: input where
  "exInput = \<lparr>i_seq = 1, i_turn = Fin 0, i_thrust = Fin 1, i_fire = True\<rparr>"

text \<open>
  An input whose thrust is the finite number \<^verbatim>\<open>1e308\<close>, as a client can send it in a
  \<^verbatim>\<open>game-input\<close> message.
\<close>

definition hugeThrust :: real where "hugeThrust = 10 ^ 308"



text \<open>An environment whose every random number is \<open>v\<close> and whose clock stands at \<open>t\<close>.\<close>

definition constEnv :: "real \<Rightarrow> nat \<Rightarrow> env" where
  "constEnv v t = \<lparr>rnd = \<lambda>n. v, clk = \<lambda>n. t\<rparr>"

text \<open>
  Random numbers that make the wall loop accept \<open>wallA\<close>, then \<open>wallB\<close>, then propose
  \<open>wallB\<close> again in every further attempt.
\<close>

definition twoEnv :: env where
  "twoEnv = \<lparr>rnd = \<lambda>n. if n < 5 then 1 / 2 else 1 / 4, clk = \<lambda>n. 0\<rparr>"

definition wallA :: wall where
  "wallA = \<lparr>wall_x = 580, wall_y = 240, wall_w = 70, wall_h = 150\<rparr>"

definition wallB :: wall where
  "wallB = \<lparr>wall_x = 585 / 2, wall_y = 505 / 4, wall_w = 60, wall_h = 125\<rparr>"

text \<open>
  Two calls of \<^verbatim>\<open>Math.random()\<close> within one millisecond whose results differ, but not in their
  first four base-36 digits (\<open>60466176 = 36\<^sup>5\<close>).
\<close>

definition collideEnv :: env where
  "collideEnv =
     \<lparr>rnd = \<lambda>n. if n = 0 then 1 / 2 + 1 / 60466176 else 1 / 2 + 2 / 60466176,
      clk = \<lambda>n. 1700000000000\<rparr>"

definition exBullet :: bullet where
  "exBullet = \<lparr>b_id = ''x'', b_x = Fin 120, b_y = Fin 100, b_vx = Fin 400, b_vy = Fin 0,
               b_owner = ''a'', b_life = 2.5\<rparr>"

text \<open>
  A running room whose only player has one queued input that fires, and the bullet that
  input spawns when every random number is \<open>1 / 4\<close> and the clock stands at 1000.
\<close>

definition fireInput :: input where
  "fireInput = \<lparr>i_seq = 1, i_turn = Fin 0, i_thrust = Fin 0, i_fire = True\<rparr>"

definition flightRoom :: room where
  "flightRoom = mkRoom [(''a'', (mkPlayer ''a'' 0 False)\<lparr>p_inputs := [fireInput]\<rparr>)] True"

definition flightBullet :: bullet where
  "flightBullet = \<lparr>b_id = ''a-1000-9'', b_x = Fin 120, b_y = Fin 100, b_vx = Fin 400,
                    b_vy = Fin 0, b_owner = ''a'', b_life = 2.5\<rparr>"

text \<open>The rooms of that flight: the player is alone, the bullet flies along \<open>y = 100\<close>.\<close>

definition flightShape :: "room \<Rightarrow> bool" where
  "flightShape r =
     (matchRunning r \<and> map_arena r = exArena \<and>
      (\<exists>p. players r = [(''a'', p)] \<and> p_id p = ''a'' \<and> p_inputs p = []) \<and>
      (bullets r = [] \<or>
       (\<exists>b. bullets r = [(''a-1000-9'', b)] \<and> b_owner b = ''a'' \<and> b_y b = Fin 100 \<and>
            b_vy b = Fin 0)))"

section \<open>Facts about Numbers\<close>

subsection \<open>The range\<close>

lemma OVERFLOW_lower: "10 ^ 308 < OVERFLOW"
  by (simp add: OVERFLOW_def)


lemma OVERFLOW_pos: "0 < OVERFLOW"
  using OVERFLOW_lower by (simp add: less_trans[of 0 "10 ^ 308"])

lemma number_Fin: "\<bar>v\<bar> \<le> 10 ^ 308 \<Longrightarrow> number v = Fin v"
  using OVERFLOW_lower by (auto simp: number_def)


lemma number_small: "\<bar>v\<bar> \<le> 1000000 \<Longrightarrow> number v = Fin v"
  by (rule number_Fin) simp

lemma number_0 [simp]: "number 0 = Fin 0"
  by (simp add: number_small)

lemma number_not_NaN [simp]: "number v \<noteq> NaN"
  by (simp add: number_def)

lemma number_nonneg: "0 \<le> v \<Longrightarrow> number v = PInf \<or> number v = Fin v"
  using OVERFLOW_pos by (auto simp: number_def)

text \<open>\<^verbatim>\<open>1e308\<close> is a finite Number; \<^verbatim>\<open>1e308 * 700\<close> is \<^verbatim>\<open>Infinity\<close>.\<close>

lemma hugeThrust_neq_0 [simp]: "hugeThrust \<noteq> 0"
  by (simp add: hugeThrust_def)



subsection \<open>Bounds, the clamp and squares\<close>






text \<open>A square is NaN, \<^verbatim>\<open>Infinity\<close> or a finite number that is not negative.\<close>

lemma jmul_self: "jmul d d = NaN \<or> jmul d d = PInf \<or> (\<exists>w\<ge>0. jmul d d = Fin w)"
proof (cases d)
  case (Fin v)
  then show ?thesis using number_nonneg[of "v * v"] by auto
qed simp_all

lemma far_from_pillar:
  assumes "t \<le> c" "0 \<le> c"
  shows "\<not> jlt (jadd (jmul d d) (Fin c)) (Fin t)"
proof -
  consider "jmul d d = NaN" | "jmul d d = PInf" | w where "0 \<le> w" "jmul d d = Fin w"
    using jmul_self[of d] by blast
  then show ?thesis
  proof cases
    case 3
    have "0 \<le> w + c" using 3(1) assms(2) by simp
    from number_nonneg[OF this] show ?thesis using 3 assms by auto
  qed simp_all
qed

section \<open>Rankings and the winner\<close>

lemmas game_consts = GAME_TICK_RATE_def GAME_DT_def MAP_WIDTH_def MAP_HEIGHT_def

lemma insertBy_insort:
  "insertBy (\<lambda>a b. rk_kills b - rk_kills a) x ys = insort_key (\<lambda>k. - rk_kills k) x ys"
  by (induction ys) auto

lemma sortBy_sort_key:
  "sortBy (\<lambda>a b. rk_kills b - rk_kills a) xs = sort_key (\<lambda>k. - rk_kills k) xs"
  by (induction xs) (simp_all add: sortBy_def sort_key_def insertBy_insort)

lemma computeRankings_sort:
  "computeRankings ps = sort_key (\<lambda>k. - rk_kills k) (map (\<lambda>(k, p). rankingOf p) ps)"
  by (simp add: computeRankings_def sortBy_sort_key)

lemma rankings_sorted: "sorted_wrt (\<lambda>a b. rk_kills a \<ge> rk_kills b) (computeRankings ps)"
proof -
  have "sorted (map (\<lambda>k. - rk_kills k) (computeRankings ps))"
    by (simp add: computeRankings_sort)
  then show ?thesis by (simp add: sorted_map sorted_wrt_iff_nth_less)
qed

lemma rankings_mset: "mset (computeRankings ps) = mset (map (\<lambda>(k, p). rankingOf p) ps)"
  by (simp add: computeRankings_sort)

lemma rankings_hd_max:
  assumes "ps \<noteq> []"
  shows "\<exists>b rest. computeRankings ps = b # rest \<and> rk_kills b = Max (set (killsOf ps))"
proof -
  let ?rs = "computeRankings ps"
  have ne: "?rs \<noteq> []"
    using assms rankings_mset[of ps] by (metis mset_zero_iff map_is_Nil_conv)
  then obtain b rest where br: "?rs = b # rest" by (cases ?rs) auto
  have set_eq: "set ?rs = set (map (\<lambda>(k, p). rankingOf p) ps)"
    using rankings_mset[of ps] by (metis set_mset_mset)
  have kills_eq: "rk_kills ` set ?rs = set (killsOf ps)"
    unfolding set_eq killsOf_def by (force simp: rankingOf_def image_iff)
  have "\<forall>x \<in> set rest. rk_kills x \<le> rk_kills b"
    using rankings_sorted[of ps] br by simp
  then have "\<forall>k \<in> rk_kills ` set ?rs. k \<le> rk_kills b" using br by auto
  moreover have "rk_kills b \<in> rk_kills ` set ?rs" using br by simp
  ultimately have "Max (rk_kills ` set ?rs) = rk_kills b"
    by (intro Max_eqI) auto
  then show ?thesis using br kills_eq by auto
qed

lemma rankings_allZero:
  "list_all (\<lambda>k. rk_kills k = 0) (computeRankings ps) = list_all (\<lambda>(k, p). p_kills p = 0) ps"
proof -
  have "set (computeRankings ps) = set (map (\<lambda>(k, p). rankingOf p) ps)"
    using rankings_mset[of ps] by (metis set_mset_mset)
  then show ?thesis by (auto simp: list_all_iff rankingOf_def)
qed

lemma rankings_count:
  "length (filter (\<lambda>k. rk_kills k = n) (computeRankings ps)) =
   length (filter (\<lambda>(k, p). p_kills p = n) ps)"
proof -
  have "length (filter (\<lambda>k. rk_kills k = n) (computeRankings ps)) =
        size (filter_mset (\<lambda>k. rk_kills k = n) (mset (computeRankings ps)))"
    by (metis mset_filter size_mset)
  also have "\<dots> = size (filter_mset (\<lambda>k. rk_kills k = n) (mset (map (\<lambda>(k, p). rankingOf p) ps)))"
    by (simp add: rankings_mset)
  also have "\<dots> = length (filter (\<lambda>k. rk_kills k = n) (map (\<lambda>(k, p). rankingOf p) ps))"
    by (metis mset_filter size_mset)
  also have "\<dots> = length (filter (\<lambda>(k, p). p_kills p = n) ps)"
    by (induction ps) (auto simp: rankingOf_def)
  finally show ?thesis .
qed

lemma filter_single:
  assumes "length (filter P xs) \<le> 1" "a \<in> set xs" "P a" "b \<in> set xs" "P b"
  shows "a = b"
proof -
  have "a \<in> set (filter P xs)" "b \<in> set (filter P xs)" using assms by auto
  moreover obtain c where "filter P xs = [c]"
    using assms(1) \<open>a \<in> set (filter P xs)\<close> by (cases "filter P xs") auto
  ultimately show ?thesis by simp
qed

text \<open>The winner the code computes is the winner of the specification's rule.\<close>

lemma computeWinner_spec: "computeWinner (computeRankings ps) = specWinner ps"
proof (cases "ps = []")
  case True
  then show ?thesis
    by (simp add: computeWinner_def specWinner_def computeRankings_def sortBy_def)
next
  case False
  let ?mk = "Max (set (killsOf ps))"
  from rankings_hd_max[OF False] obtain b rest where
    br: "computeRankings ps = b # rest" and bk: "rk_kills b = ?mk" by blast
  have az: "list_all (\<lambda>k. rk_kills k = 0) (b # rest) = list_all (\<lambda>(k, p). p_kills p = 0) ps"
    using rankings_allZero[of ps] br by simp
  have cnt: "length (filter (\<lambda>k. rk_kills k = ?mk) (b # rest)) =
             length (filter (\<lambda>(k, p). p_kills p = ?mk) ps)"
    using rankings_count[of ?mk ps] br by simp
  show ?thesis
  proof (cases "list_all (\<lambda>(k, p). p_kills p = 0) ps")
    case True
    then show ?thesis using False br az
      by (simp add: computeWinner_def specWinner_def)
  next
    case nz: False
    show ?thesis
    proof (cases "length (filter (\<lambda>(k, p). p_kills p = ?mk) ps) > 1")
      case True
      then show ?thesis using False nz br az cnt bk
        by (simp add: computeWinner_def specWinner_def Let_def)
    next
      case one: False
      have "?mk \<in> set (killsOf ps)"
        using False by (intro Max_in) (auto simp: killsOf_def)
      then obtain k p where kp: "(k, p) \<in> set ps" "p_kills p = ?mk"
        by (auto simp: killsOf_def)
      then obtain k' p' where f: "List.find (\<lambda>(k, p). p_kills p = ?mk) ps = Some (k', p')"
        by (cases "List.find (\<lambda>(k, p). p_kills p = ?mk) ps") (auto simp: find_None_iff)
      then have kp': "(k', p') \<in> set ps" "p_kills p' = ?mk"
        by (auto simp: find_Some_iff in_set_conv_nth)
      have "set (computeRankings ps) = set (map (\<lambda>(k, p). rankingOf p) ps)"
        using rankings_mset[of ps] by (metis set_mset_mset)
      then have "rankingOf p' \<in> set (computeRankings ps)"
        using kp'(1) by force
      moreover have "rk_kills (rankingOf p') = ?mk" using kp'(2) by (simp add: rankingOf_def)
      moreover have "b \<in> set (computeRankings ps)" using br by simp
      moreover have "length (filter (\<lambda>k. rk_kills k = ?mk) (computeRankings ps)) \<le> 1"
        using one cnt br by simp
      ultimately have "b = rankingOf p'"
        using bk filter_single[of "\<lambda>k. rk_kills k = ?mk" "computeRankings ps" b "rankingOf p'"]
        by blast
      then show ?thesis using False nz one br az cnt bk f
        by (simp add: computeWinner_def specWinner_def Let_def)
    qed
  qed
qed

lemma endMatch_emitted:
  "matchRunning r \<Longrightarrow>
   emitted (endMatch r) =
     emitted r @ [MatchEnded (computeRankings (players r))
                    (computeWinner (computeRankings (players r))),
                  PlayersList (map (\<lambda>(k, p). playerViewOf (p\<lparr>p_ready := False\<rparr>)) (players r))]"
  by (simp add: endMatch_def Let_def stopTimer_def broadcast_def broadcastPlayerList_def
      case_prod_unfold comp_def)

lemma specWinner_553:
  assumes "killsOf ps = [5, 5, 3]"
  shows "specWinner ps = Some \<lparr>rk_id = None, rk_name = ''Draw'', rk_kills = 5\<rparr>"
proof -
  from assms obtain a b c where "ps = [a, b, c]"
    by (auto simp: killsOf_def map_eq_Cons_conv)
  with assms show ?thesis
    by (auto simp: killsOf_def specWinner_def case_prod_unfold)
qed

lemma specWinner_000:
  assumes "killsOf ps = [0, 0, 0]"
  shows "specWinner ps = None"
proof -
  from assms obtain a b c where "ps = [a, b, c]"
    by (auto simp: killsOf_def map_eq_Cons_conv)
  with assms show ?thesis
    by (auto simp: killsOf_def specWinner_def case_prod_unfold)
qed

lemma specWinner_722:
  assumes "killsOf ps = [7, 2, 2]"
  shows "specWinner ps = Some (rankingOf (snd (hd ps)))"
proof -
  from assms obtain a b c where "ps = [a, b, c]"
    by (auto simp: killsOf_def map_eq_Cons_conv)
  with assms show ?thesis
    by (auto simp: killsOf_def specWinner_def case_prod_unfold)
qed

text \<open>
  Claim C1. When a running match ends, \<open>endMatch\<close> sends \<^verbatim>\<open>match-ended\<close> (followed by the
  player list) with the rankings and the winner: the rankings are the room's players sorted
  by kill count, highest first (a stable sort of the player records); the winner is the one
  of the specification's rule \<open>specWinner\<close> (nobody without players or when all kills are
  zero, the Draw record carrying the maximum when two or more players share it, otherwise
  the single top player). For kills 5, 5, 3 the winner is the Draw record with 5 kills, for
  0, 0, 0 there is none, for 7, 2, 2 it is the first player, the one with 7 kills.
\<close>

theorem endMatch_rankings_winner:
  assumes "matchRunning r"
  shows "\<exists>rankings winner views.
           emitted (endMatch r) = emitted r @ [MatchEnded rankings winner, PlayersList views] \<and>
           rankings = sort_key (\<lambda>k. - rk_kills k) (map (\<lambda>(k, p). rankingOf p) (players r)) \<and>
           sorted_wrt (\<lambda>a b. rk_kills a \<ge> rk_kills b) rankings \<and>
           mset rankings = mset (map (\<lambda>(k, p). rankingOf p) (players r)) \<and>
           winner = specWinner (players r) \<and>
           (killsOf (players r) = [5, 5, 3] \<longrightarrow>
              winner = Some \<lparr>rk_id = None, rk_name = ''Draw'', rk_kills = 5\<rparr>) \<and>
           (killsOf (players r) = [0, 0, 0] \<longrightarrow> winner = None) \<and>
           (killsOf (players r) = [7, 2, 2] \<longrightarrow>
              winner = Some (rankingOf (snd (hd (players r)))))"
  using endMatch_emitted[OF assms] computeRankings_sort[of "players r"]
    rankings_sorted[of "players r"] rankings_mset[of "players r"]
    computeWinner_spec[of "players r"] specWinner_553[of "players r"]
    specWinner_000[of "players r"] specWinner_722[of "players r"]
  by (intro exI[of _ "computeRankings (players r)"] exI[of _ "specWinner (players r)"] exI) simp

theorem endMatch_rankings_winner_witness:
  "matchRunning (mkRoom [(''a'', mkPlayer ''a'' 5 False), (''b'', mkPlayer ''b'' 5 False),
                         (''c'', mkPlayer ''c'' 3 False)] True) \<and>
   (\<exists>rankings views.
      emitted (endMatch (mkRoom [(''a'', mkPlayer ''a'' 5 False), (''b'', mkPlayer ''b'' 5 False),
                                 (''c'', mkPlayer ''c'' 3 False)] True))
      = [MatchEnded rankings (Some \<lparr>rk_id = None, rk_name = ''Draw'', rk_kills = 5\<rparr>),
         PlayersList views]) \<and>
   matchRunning (mkRoom [(''a'', mkPlayer ''a'' 0 False), (''b'', mkPlayer ''b'' 0 False),
                         (''c'', mkPlayer ''c'' 0 False)] True) \<and>
   (\<exists>rankings views.
      emitted (endMatch (mkRoom [(''a'', mkPlayer ''a'' 0 False), (''b'', mkPlayer ''b'' 0 False),
                                 (''c'', mkPlayer ''c'' 0 False)] True))
      = [MatchEnded rankings None, PlayersList views]) \<and>
   matchRunning (mkRoom [(''a'', mkPlayer ''a'' 7 False), (''b'', mkPlayer ''b'' 2 False),
                         (''c'', mkPlayer ''c'' 2 False)] True) \<and>
   (\<exists>rankings views.
      emitted (endMatch (mkRoom [(''a'', mkPlayer ''a'' 7 False), (''b'', mkPlayer ''b'' 2 False),
                                 (''c'', mkPlayer ''c'' 2 False)] True))
      = [MatchEnded rankings (Some \<lparr>rk_id = Some ''a'', rk_name = ''a'', rk_kills = 7\<rparr>),
         PlayersList views])"
proof -
  let ?r1 = "mkRoom [(''a'', mkPlayer ''a'' 5 False), (''b'', mkPlayer ''b'' 5 False),
                     (''c'', mkPlayer ''c'' 3 False)] True"
  let ?r2 = "mkRoom [(''a'', mkPlayer ''a'' 0 False), (''b'', mkPlayer ''b'' 0 False),
                     (''c'', mkPlayer ''c'' 0 False)] True"
  let ?r3 = "mkRoom [(''a'', mkPlayer ''a'' 7 False), (''b'', mkPlayer ''b'' 2 False),
                     (''c'', mkPlayer ''c'' 2 False)] True"
  have k1: "killsOf (players ?r1) = [5, 5, 3]" and k2: "killsOf (players ?r2) = [0, 0, 0]"
    and k3: "killsOf (players ?r3) = [7, 2, 2]"
    by (simp_all add: mkRoom_def mkPlayer_def killsOf_def)
  have m1: "matchRunning ?r1" and m2: "matchRunning ?r2" and m3: "matchRunning ?r3"
    by (simp_all add: mkRoom_def)
  have e: "emitted ?r1 = []" "emitted ?r2 = []" "emitted ?r3 = []"
    by (simp_all add: mkRoom_def)
  have h3: "rankingOf (snd (hd (players ?r3))) =
            \<lparr>rk_id = Some ''a'', rk_name = ''a'', rk_kills = 7\<rparr>"
    by (simp add: mkRoom_def mkPlayer_def rankingOf_def)
  from endMatch_rankings_winner[OF m1] k1 e(1)
  have "\<exists>rankings views. emitted (endMatch ?r1)
      = [MatchEnded rankings (Some \<lparr>rk_id = None, rk_name = ''Draw'', rk_kills = 5\<rparr>),
         PlayersList views]"
    by auto
  moreover from endMatch_rankings_winner[OF m2] k2 e(2)
  have "\<exists>rankings views. emitted (endMatch ?r2) = [MatchEnded rankings None, PlayersList views]"
    by auto
  moreover from endMatch_rankings_winner[OF m3] k3 e(3) h3
  have "\<exists>rankings views. emitted (endMatch ?r3)
      = [MatchEnded rankings (Some \<lparr>rk_id = Some ''a'', rk_name = ''a'', rk_kills = 7\<rparr>),
         PlayersList views]"
    by auto
  ultimately show ?thesis using m1 m2 m3 by blast
qed

section \<open>Starting and ending twice\<close>

text \<open>
  Claim C4. \<open>startMatch\<close> on a room whose match is running returns the room and the
  environment as they are: no player is reset, the timer and the bullets stay, nothing is
  emitted and no random number is drawn. \<open>endMatch\<close> on a room whose match is not running
  returns the room as it is.
\<close>

theorem startMatch_endMatch_noop:
  "(matchRunning r \<longrightarrow> startMatch e r = (e, r)) \<and> (\<not> matchRunning r \<longrightarrow> endMatch r = r)"
  by (simp add: startMatch_def endMatch_def)

theorem startMatch_endMatch_noop_witness:
  "matchRunning (mkRoom [(''a'', mkPlayer ''a'' 2 True)] True) \<and>
   startMatch (constEnv (1 / 4) 1000) (mkRoom [(''a'', mkPlayer ''a'' 2 True)] True) =
     (constEnv (1 / 4) 1000, mkRoom [(''a'', mkPlayer ''a'' 2 True)] True) \<and>
   \<not> matchRunning (mkRoom [(''a'', mkPlayer ''a'' 2 True)] False) \<and>
   endMatch (mkRoom [(''a'', mkPlayer ''a'' 2 True)] False) =
     mkRoom [(''a'', mkPlayer ''a'' 2 True)] False"
  using startMatch_endMatch_noop[of "mkRoom [(''a'', mkPlayer ''a'' 2 True)] True"
      "constEnv (1 / 4) 1000"]
    startMatch_endMatch_noop[of "mkRoom [(''a'', mkPlayer ''a'' 2 True)] False"]
  by (simp add: mkRoom_def)

section \<open>Receiving inputs\<close>

lemma map_fst_update_existing:
  "map_of al k = Some v \<Longrightarrow> map fst (AList.update k v' al) = map fst al"
  by (induction al) (auto split: if_splits)

lemma update_absent: "map_of al k = None \<Longrightarrow> AList.update k v al = al @ [(k, v)]"
  by (induction al) (auto split: if_splits)

text \<open>
  Claim C7. \<open>receiveInput\<close> appends the input to the queue of player \<open>sid\<close> exactly when
  that player is in the room and the match is running: then the player's queue grows by the
  input at its end and nothing else of the room changes; in every other case (unknown
  player, match stopped) the room stays as it is. The \<^verbatim>\<open>game-input\<close> handler leaves the
  registry as it is when the room is unknown, and otherwise passes the input to the room.
\<close>

theorem receiveInput_gated:
  "(\<forall>p. map_of (players r) sid = Some p \<and> matchRunning r \<longrightarrow>
      map_of (players (receiveInput sid inp r)) sid = Some (p\<lparr>p_inputs := p_inputs p @ [inp]\<rparr>) \<and>
      (\<forall>k. k \<noteq> sid \<longrightarrow> map_of (players (receiveInput sid inp r)) k = map_of (players r) k) \<and>
      map fst (players (receiveInput sid inp r)) = map fst (players r) \<and>
      receiveInput sid inp r = r\<lparr>players := players (receiveInput sid inp r)\<rparr>) \<and>
   (receiveInput sid inp r \<noteq> r \<longleftrightarrow> map_of (players r) sid \<noteq> None \<and> matchRunning r) \<and>
   (reg (roomKey room) = None \<longrightarrow> onGameInput sid room inp reg = reg) \<and>
   (\<forall>g. reg (roomKey room) = Some g \<longrightarrow>
      onGameInput sid room inp reg = reg(roomKey room \<mapsto> receiveInput sid inp g))"
proof -
  have a: "receiveInput sid inp r = r" if "map_of (players r) sid = None \<or> \<not> matchRunning r"
    using that by (auto simp: receiveInput_def split: option.splits)
  have b: "map_of (players (receiveInput sid inp r)) sid = Some (p\<lparr>p_inputs := p_inputs p @ [inp]\<rparr>)"
    "\<forall>k. k \<noteq> sid \<longrightarrow> map_of (players (receiveInput sid inp r)) k = map_of (players r) k"
    "map fst (players (receiveInput sid inp r)) = map fst (players r)"
    "receiveInput sid inp r = r\<lparr>players := players (receiveInput sid inp r)\<rparr>"
    if "map_of (players r) sid = Some p" "matchRunning r" for p
    using that by (simp_all add: receiveInput_def update_conv' map_fst_update_existing)
  have c: "receiveInput sid inp r \<noteq> r" if "map_of (players r) sid = Some p" "matchRunning r" for p
  proof
    assume "receiveInput sid inp r = r"
    with b(1)[OF that] that(1) have "p\<lparr>p_inputs := p_inputs p @ [inp]\<rparr> = p" by simp
    then have "p_inputs (p\<lparr>p_inputs := p_inputs p @ [inp]\<rparr>) = p_inputs p" by simp
    then show False by simp
  qed
  have d: "receiveInput sid inp r \<noteq> r \<longleftrightarrow> map_of (players r) sid \<noteq> None \<and> matchRunning r"
  proof (cases "map_of (players r) sid")
    case None
    then show ?thesis using a by simp
  next
    case (Some p)
    show ?thesis
    proof (cases "matchRunning r")
      case True
      then show ?thesis using c[OF Some] Some by simp
    next
      case False
      then show ?thesis using a by simp
    qed
  qed
  have e: "reg (roomKey room) = None \<longrightarrow> onGameInput sid room inp reg = reg"
    by (simp add: onGameInput_def)
  have f: "\<forall>g. reg (roomKey room) = Some g \<longrightarrow>
      onGameInput sid room inp reg = reg(roomKey room \<mapsto> receiveInput sid inp g)"
    by (simp add: onGameInput_def)
  show ?thesis using b d e f by blast
qed

lemma roomKey_example: "roomKey '' Lobby '' = ''lobby''"
  by code_simp

theorem receiveInput_gated_witness:
  "map_of (players (mkRoom [(''a'', mkPlayer ''a'' 0 False)] True)) ''a'' =
     Some (mkPlayer ''a'' 0 False) \<and>
   matchRunning (mkRoom [(''a'', mkPlayer ''a'' 0 False)] True) \<and>
   map_of (players (receiveInput ''a'' exInput (mkRoom [(''a'', mkPlayer ''a'' 0 False)] True))) ''a''
     = Some ((mkPlayer ''a'' 0 False)\<lparr>p_inputs := [exInput]\<rparr>) \<and>
   receiveInput ''zz'' exInput (mkRoom [(''a'', mkPlayer ''a'' 0 False)] True) =
     mkRoom [(''a'', mkPlayer ''a'' 0 False)] True \<and>
   receiveInput ''a'' exInput (mkRoom [(''a'', mkPlayer ''a'' 0 False)] False) =
     mkRoom [(''a'', mkPlayer ''a'' 0 False)] False \<and>
   onGameInput ''a'' '' Lobby '' exInput Map.empty = Map.empty \<and>
   onGameInput ''a'' '' Lobby '' exInput [''lobby'' \<mapsto> mkRoom [(''a'', mkPlayer ''a'' 0 False)] True] =
     [''lobby'' \<mapsto> receiveInput ''a'' exInput (mkRoom [(''a'', mkPlayer ''a'' 0 False)] True)]"
proof -
  let ?R = "mkRoom [(''a'', mkPlayer ''a'' 0 False)] True"
  let ?S = "mkRoom [(''a'', mkPlayer ''a'' 0 False)] False"
  have h: "map_of (players ?R) ''a'' = Some (mkPlayer ''a'' 0 False)" "matchRunning ?R"
    "map_of (players ?R) ''zz'' = None" "\<not> matchRunning ?S"
    "p_inputs (mkPlayer ''a'' 0 False) = []"
    by (simp_all add: mkRoom_def mkPlayer_def)
  show ?thesis
    using receiveInput_gated[of ?R "''a''" exInput "[''lobby'' \<mapsto> ?R]" "'' Lobby ''"]
      receiveInput_gated[of ?R "''zz''" exInput Map.empty "'' Lobby ''"]
      receiveInput_gated[of ?S "''a''" exInput Map.empty "'' Lobby ''"] h
    by (simp add: roomKey_example)
qed

section \<open>Joining\<close>

lemma addPlayer_room:
  "\<exists>p. snd (addPlayer sid nm e r) =
         broadcastPlayerList (r\<lparr>players := AList.update sid p (players r)\<rparr>) \<and>
       p_id p = sid \<and> p_hp p = 100 \<and> p_vx p = Fin 0 \<and> p_vy p = Fin 0 \<and>
       p_kills p = (case map_of (players r) sid of None \<Rightarrow> 0 | Some q \<Rightarrow> p_kills q) \<and>
       p_inputs p = [] \<and> \<not> p_ready p \<and>
       p_name p = (case nm of None \<Rightarrow> ''Player'' | Some n \<Rightarrow> n) \<and>
       p_x p = Fin (fst (fst (getSafeSpawn (map_arena r) e))) \<and>
       p_y p = Fin (snd (fst (getSafeSpawn (map_arena r) e)))"
proof -
  let ?sp = "getSafeSpawn (map_arena r) e"
  let ?p = "\<lparr>p_id = sid, p_name = (case nm of None \<Rightarrow> ''Player'' | Some n \<Rightarrow> n),
             p_x = Fin (fst (fst ?sp)), p_y = Fin (snd (fst ?sp)),
             p_a = Fin (fst (mathRandom (snd ?sp)) * pi * 2), p_vx = Fin 0, p_vy = Fin 0,
             p_hp = 100,
             p_kills = (case map_of (players r) sid of None \<Rightarrow> 0 | Some q \<Rightarrow> p_kills q),
             p_inputs = [], p_lastInputSeq = 0, p_ready = False\<rparr>"
  have "snd (addPlayer sid nm e r) =
          broadcastPlayerList (r\<lparr>players := AList.update sid ?p (players r)\<rparr>)"
    by (simp add: addPlayer_def Let_def case_prod_unfold)
  then show ?thesis by (intro exI[of _ ?p]) simp
qed

text \<open>
  Claim C10. \<open>addPlayer\<close> touches the player Map at the given id only (an existing id keeps
  its place, a new one goes last): every other player's record, the bullets, the running
  flag, the remaining time, the tick sequence number, the arena, both timer handles and
  the match duration are as before, whether or not a match is running. The entry under the
  id has hp 100, zero velocity, the kills of the entry it replaces (0 when the id is new),
  an empty input queue and \<open>ready = false\<close>. The \<^verbatim>\<open>game-join\<close> handler of an existing room
  does this call on that room.
\<close>

theorem addPlayer_frame:
  "(\<forall>k. k \<noteq> sid \<longrightarrow> map_of (players (snd (addPlayer sid nm e r))) k = map_of (players r) k) \<and>
   map fst (players (snd (addPlayer sid nm e r))) =
     (if map_of (players r) sid = None then map fst (players r) @ [sid] else map fst (players r)) \<and>
   bullets (snd (addPlayer sid nm e r)) = bullets r \<and>
   matchRunning (snd (addPlayer sid nm e r)) = matchRunning r \<and>
   timeLeft (snd (addPlayer sid nm e r)) = timeLeft r \<and>
   seq (snd (addPlayer sid nm e r)) = seq r \<and>
   map_arena (snd (addPlayer sid nm e r)) = map_arena r \<and>
   timerInterval (snd (addPlayer sid nm e r)) = timerInterval r \<and>
   interval (snd (addPlayer sid nm e r)) = interval r \<and>
   matchDuration (snd (addPlayer sid nm e r)) = matchDuration r \<and>
   (\<exists>p. map_of (players (snd (addPlayer sid nm e r))) sid = Some p \<and>
        p_hp p = 100 \<and> p_vx p = Fin 0 \<and> p_vy p = Fin 0 \<and>
        p_kills p = (case map_of (players r) sid of None \<Rightarrow> 0 | Some q \<Rightarrow> p_kills q) \<and>
        p_inputs p = [] \<and> \<not> p_ready p) \<and>
   (\<forall>g. reg (roomKey room) = Some g \<longrightarrow>
        snd (onGameJoin sid room nm e reg) = reg(roomKey room \<mapsto> snd (addPlayer sid nm e g)))"
proof -
  obtain p where p: "snd (addPlayer sid nm e r) =
         broadcastPlayerList (r\<lparr>players := AList.update sid p (players r)\<rparr>)"
    "p_hp p = 100" "p_vx p = Fin 0" "p_vy p = Fin 0"
    "p_kills p = (case map_of (players r) sid of None \<Rightarrow> 0 | Some q \<Rightarrow> p_kills q)"
    "p_inputs p = []" "\<not> p_ready p"
    using addPlayer_room[of sid nm e r] by blast
  have pl: "players (snd (addPlayer sid nm e r)) = AList.update sid p (players r)"
    by (simp add: p(1) broadcastPlayerList_def broadcast_def)
  have keys: "map fst (AList.update sid p (players r)) =
     (if map_of (players r) sid = None then map fst (players r) @ [sid] else map fst (players r))"
    by (cases "map_of (players r) sid") (auto simp: update_absent map_fst_update_existing)
  have others: "\<forall>k. k \<noteq> sid \<longrightarrow> map_of (AList.update sid p (players r)) k = map_of (players r) k"
    by (simp add: update_conv')
  have new: "map_of (AList.update sid p (players r)) sid = Some p"
    by (simp add: update_conv')
  have frame: "bullets (snd (addPlayer sid nm e r)) = bullets r"
    "matchRunning (snd (addPlayer sid nm e r)) = matchRunning r"
    "timeLeft (snd (addPlayer sid nm e r)) = timeLeft r"
    "seq (snd (addPlayer sid nm e r)) = seq r"
    "map_arena (snd (addPlayer sid nm e r)) = map_arena r"
    "timerInterval (snd (addPlayer sid nm e r)) = timerInterval r"
    "interval (snd (addPlayer sid nm e r)) = interval r"
    "matchDuration (snd (addPlayer sid nm e r)) = matchDuration r"
    by (simp_all add: p(1) broadcastPlayerList_def broadcast_def)
  have join: "\<forall>g. reg (roomKey room) = Some g \<longrightarrow>
        snd (onGameJoin sid room nm e reg) = reg(roomKey room \<mapsto> snd (addPlayer sid nm e g))"
    by (simp add: onGameJoin_def Let_def split: prod.splits)
  show ?thesis
    unfolding pl using keys others new frame p(2-) join unfolding pl by blast
qed

theorem addPlayer_frame_witness:
  "map_of (players (snd (addPlayer ''a'' None (constEnv (1 / 4) 1000)
      (mkRoom [(''a'', mkPlayer ''a'' 2 True), (''b'', mkPlayer ''b'' 1 True)] True)))) ''b'' =
     Some (mkPlayer ''b'' 1 True) \<and>
   map fst (players (snd (addPlayer ''a'' None (constEnv (1 / 4) 1000)
      (mkRoom [(''a'', mkPlayer ''a'' 2 True), (''b'', mkPlayer ''b'' 1 True)] True)))) =
     [''a'', ''b''] \<and>
   matchRunning (snd (addPlayer ''a'' None (constEnv (1 / 4) 1000)
      (mkRoom [(''a'', mkPlayer ''a'' 2 True), (''b'', mkPlayer ''b'' 1 True)] True))) \<and>
   timeLeft (snd (addPlayer ''a'' None (constEnv (1 / 4) 1000)
      (mkRoom [(''a'', mkPlayer ''a'' 2 True), (''b'', mkPlayer ''b'' 1 True)] True))) = 65 \<and>
   (\<exists>p. map_of (players (snd (addPlayer ''a'' None (constEnv (1 / 4) 1000)
      (mkRoom [(''a'', mkPlayer ''a'' 2 True), (''b'', mkPlayer ''b'' 1 True)] True)))) ''a'' = Some p \<and>
      p_hp p = 100 \<and> p_kills p = 2 \<and> p_inputs p = [] \<and> \<not> p_ready p) \<and>
   snd (onGameJoin ''a'' '' Lobby '' None (constEnv (1 / 4) 1000)
      [''lobby'' \<mapsto> mkRoom [(''a'', mkPlayer ''a'' 2 True), (''b'', mkPlayer ''b'' 1 True)] True]) =
     [''lobby'' \<mapsto> snd (addPlayer ''a'' None (constEnv (1 / 4) 1000)
      (mkRoom [(''a'', mkPlayer ''a'' 2 True), (''b'', mkPlayer ''b'' 1 True)] True))]"
proof -
  let ?R = "mkRoom [(''a'', mkPlayer ''a'' 2 True), (''b'', mkPlayer ''b'' 1 True)] True"
  let ?e = "constEnv (1 / 4) 1000"
  have h: "map_of (players ?R) ''b'' = Some (mkPlayer ''b'' 1 True)"
    "map_of (players ?R) ''a'' = Some (mkPlayer ''a'' 2 True)"
    "map fst (players ?R) = [''a'', ''b'']" "matchRunning ?R" "timeLeft ?R = 65"
    "p_kills (mkPlayer ''a'' 2 True) = 2"
    by (simp_all add: mkRoom_def mkPlayer_def)
  have ne: "''b'' \<noteq> ''a''" by simp
  note T = addPlayer_frame[of "''a''" None ?e ?R "[''lobby'' \<mapsto> ?R]" "'' Lobby ''"]
  let ?X = "snd (addPlayer ''a'' None ?e ?R)"
  have 1: "map_of (players ?X) ''b'' = Some (mkPlayer ''b'' 1 True)"
    using T ne h(1) by metis
  have 2: "map fst (players ?X) = [''a'', ''b'']"
    using T h(2) h(3) by (metis option.distinct(1))
  have 3: "matchRunning ?X" "timeLeft ?X = 65"
    using T h(4) h(5) by metis+
  have 4: "\<exists>p. map_of (players ?X) ''a'' = Some p \<and>
      p_hp p = 100 \<and> p_kills p = 2 \<and> p_inputs p = [] \<and> \<not> p_ready p"
  proof -
    from T obtain p where "map_of (players ?X) ''a'' = Some p" "p_hp p = 100"
      "p_kills p = (case map_of (players ?R) ''a'' of None \<Rightarrow> 0 | Some q \<Rightarrow> p_kills q)"
      "p_inputs p = []" "\<not> p_ready p"
      by blast
    then show ?thesis unfolding h(2) using h(6) by (intro exI[of _ p]) simp
  qed
  have k: "[''lobby'' \<mapsto> ?R] (roomKey '' Lobby '') = Some ?R"
    by (simp add: roomKey_example)
  have 5: "snd (onGameJoin ''a'' '' Lobby '' None ?e [''lobby'' \<mapsto> ?R]) =
     [''lobby'' \<mapsto> ?X]"
  proof -
    from T k have "snd (onGameJoin ''a'' '' Lobby '' None ?e [''lobby'' \<mapsto> ?R]) =
      [''lobby'' \<mapsto> ?R](roomKey '' Lobby '' \<mapsto> ?X)"
      by blast
    then show ?thesis by (simp add: roomKey_example)
  qed
  show ?thesis using 1 2 3 4 5 by blast
qed

section \<open>Ready-gating\<close>

lemma startMatch_running: "matchRunning (snd (startMatch e r))"
  by (simp add: startMatch_def Let_def broadcastPlayerList_def broadcast_def stopTimer_def
      split: prod.splits)

lemma allReady_list_all: "list_all (\<lambda>(k, pl). p_ready pl) ps = allReady ps"
  by (auto simp: allReady_def list_all_iff)

text \<open>
  Claim C2. In a room whose match is not running: after \<open>setPlayerReady\<close> has changed the
  flag of a player of the room, the match is running if and only if every player of the
  room is ready (the room then has at least that player); after \<open>removePlayer\<close> has removed
  a player and players remain, the match is running if and only if every remaining player
  is ready. In particular, removing a player that is not ready from a room whose other
  players are all ready starts the match.
\<close>

theorem ready_gating:
  assumes "\<not> matchRunning r"
  shows "(\<forall>p. map_of (players r) sid = Some p \<longrightarrow>
            (matchRunning (snd (setPlayerReady sid b e r)) \<longleftrightarrow>
             allReady (AList.update sid (p\<lparr>p_ready := b\<rparr>) (players r)))) \<and>
         (map_of (players r) sid \<noteq> None \<and> AList.delete sid (players r) \<noteq> [] \<longrightarrow>
            (matchRunning (fst (snd (removePlayer sid e r))) \<longleftrightarrow>
             allReady (AList.delete sid (players r)))) \<and>
         (\<forall>p. map_of (players r) sid = Some p \<and> \<not> p_ready p \<and>
              AList.delete sid (players r) \<noteq> [] \<and> allReady (AList.delete sid (players r)) \<longrightarrow>
            matchRunning (fst (snd (removePlayer sid e r))))"
proof -
  have a: "matchRunning (snd (setPlayerReady sid b e r)) \<longleftrightarrow>
             allReady (AList.update sid (p\<lparr>p_ready := b\<rparr>) (players r))"
    if "map_of (players r) sid = Some p" for p
  proof -
    have ne: "AList.update sid (p\<lparr>p_ready := b\<rparr>) (players r) \<noteq> []"
      by (cases "players r") auto
    show ?thesis using that assms ne startMatch_running
      by (simp add: setPlayerReady_def Let_def broadcastPlayerList_def broadcast_def
          allReady_list_all)
  qed
  have b: "matchRunning (fst (snd (removePlayer sid e r))) \<longleftrightarrow>
             allReady (AList.delete sid (players r))"
    if "map_of (players r) sid \<noteq> None" "AList.delete sid (players r) \<noteq> []"
    using that assms startMatch_running[of e]
    by (auto simp: removePlayer_def Let_def broadcastPlayerList_def broadcast_def
        allReady_def list_all_iff case_prod_unfold)
  show ?thesis using a b by blast
qed

theorem ready_gating_witness:
  "\<not> matchRunning (mkRoom [(''a'', mkPlayer ''a'' 0 True), (''b'', mkPlayer ''b'' 0 False)] False) \<and>
   map_of (players (mkRoom [(''a'', mkPlayer ''a'' 0 True), (''b'', mkPlayer ''b'' 0 False)] False)) ''b''
     = Some (mkPlayer ''b'' 0 False) \<and>
   \<not> p_ready (mkPlayer ''b'' 0 False) \<and>
   matchRunning (snd (setPlayerReady ''b'' True (constEnv (1 / 4) 1000)
     (mkRoom [(''a'', mkPlayer ''a'' 0 True), (''b'', mkPlayer ''b'' 0 False)] False))) \<and>
   \<not> matchRunning (snd (setPlayerReady ''b'' False (constEnv (1 / 4) 1000)
     (mkRoom [(''a'', mkPlayer ''a'' 0 True), (''b'', mkPlayer ''b'' 0 False)] False))) \<and>
   matchRunning (fst (snd (removePlayer ''b'' (constEnv (1 / 4) 1000)
     (mkRoom [(''a'', mkPlayer ''a'' 0 True), (''b'', mkPlayer ''b'' 0 False)] False)))) \<and>
   \<not> matchRunning (fst (snd (removePlayer ''a'' (constEnv (1 / 4) 1000)
     (mkRoom [(''a'', mkPlayer ''a'' 0 True), (''b'', mkPlayer ''b'' 0 False)] False))))"
proof -
  let ?R = "mkRoom [(''a'', mkPlayer ''a'' 0 True), (''b'', mkPlayer ''b'' 0 False)] False"
  let ?e = "constEnv (1 / 4) 1000"
  have h: "\<not> matchRunning ?R"
    "map_of (players ?R) ''b'' = Some (mkPlayer ''b'' 0 False)"
    "map_of (players ?R) ''a'' = Some (mkPlayer ''a'' 0 True)"
    "\<not> p_ready (mkPlayer ''b'' 0 False)"
    "AList.delete ''b'' (players ?R) = [(''a'', mkPlayer ''a'' 0 True)]"
    "AList.delete ''a'' (players ?R) = [(''b'', mkPlayer ''b'' 0 False)]"
    "AList.update ''b'' ((mkPlayer ''b'' 0 False)\<lparr>p_ready := True\<rparr>) (players ?R) =
       [(''a'', mkPlayer ''a'' 0 True), (''b'', mkPlayer ''b'' 0 True)]"
    "AList.update ''b'' ((mkPlayer ''b'' 0 False)\<lparr>p_ready := False\<rparr>) (players ?R) =
       [(''a'', mkPlayer ''a'' 0 True), (''b'', mkPlayer ''b'' 0 False)]"
    by (simp_all add: mkRoom_def mkPlayer_def AList.delete_eq)
  have r: "allReady [(''a'', mkPlayer ''a'' 0 True)]"
    "\<not> allReady [(''b'', mkPlayer ''b'' 0 False)]"
    "allReady [(''a'', mkPlayer ''a'' 0 True), (''b'', mkPlayer ''b'' 0 True)]"
    "\<not> allReady [(''a'', mkPlayer ''a'' 0 True), (''b'', mkPlayer ''b'' 0 False)]"
    by (simp_all add: allReady_def mkPlayer_def)
  show ?thesis
    using ready_gating[OF h(1), of "''b''" True ?e] ready_gating[OF h(1), of "''b''" False ?e]
      ready_gating[OF h(1), of "''a''" True ?e] h r
    by simp
qed

section \<open>Safe spawn\<close>


lemma mathRandom_simps [simp]:
  "fst (mathRandom e) = rnd e 0"
  "rnd (snd (mathRandom e)) = (\<lambda>n. rnd e (Suc n))"
  "clk (snd (mathRandom e)) = clk e"
  by (simp_all add: mathRandom_def)

lemma spawnLoop_props:
  assumes "rnd_ok e" "t \<le> 1000"
  shows "\<exists>n x y e'. spawnLoop m t e = ((x, y), t + n, e') \<and> 1 \<le> n \<and> t + n \<le> 1001 \<and>
           x = rnd e (2 * (n - 1)) * MAP_WIDTH \<and> y = rnd e (2 * (n - 1) + 1) * MAP_HEIGHT \<and>
           rnd e' = (\<lambda>k. rnd e (k + 2 * n)) \<and> clk e' = clk e \<and>
           (t + n \<le> 1000 \<longrightarrow> \<not> collidesWithObstacles m (Fin x) (Fin y) 20) \<and>
           (\<forall>j < n - 1. collidesWithObstacles m (Fin (rnd e (2 * j) * MAP_WIDTH))
                          (Fin (rnd e (2 * j + 1) * MAP_HEIGHT)) 20)"
  using assms
proof (induction "1000 - t" arbitrary: t e rule: less_induct)
  case less
  note prems = less.prems
  note IH = less.hyps
  define tries where "tries = t"
  let ?e2 = "snd (mathRandom (snd (mathRandom e)))"
  let ?x = "rnd e 0 * MAP_WIDTH" and ?y = "rnd e 1 * MAP_HEIGHT"
  have e2: "rnd ?e2 = (\<lambda>k. rnd e (k + 2))" "clk ?e2 = clk e" by simp_all
  show ?case
  proof (cases "tries + 1 > 1000 \<or> \<not> collidesWithObstacles m (Fin ?x) (Fin ?y) 20")
    case True
    then have "spawnLoop m tries e = ((?x, ?y), tries + 1, ?e2)"
      by (subst spawnLoop.simps) (auto simp: case_prod_unfold Let_def)
    then show ?thesis using True prems e2 unfolding tries_def
      by (intro exI[of _ 1] exI[of _ ?x] exI[of _ ?y] exI[of _ ?e2]) auto
  next
    case False
    then have c: "collidesWithObstacles m (Fin ?x) (Fin ?y) 20" and t: "tries + 1 \<le> 1000" by auto
    have eq: "spawnLoop m tries e = spawnLoop m (tries + 1) ?e2"
      using False by (subst spawnLoop.simps) (auto simp: case_prod_unfold Let_def)
    have ok2: "rnd_ok ?e2" using prems(1) by (simp add: rnd_ok_def)
    have ih: "\<exists>n x y e'. spawnLoop m (tries + 1) ?e2 = ((x, y), tries + 1 + n, e') \<and> 1 \<le> n \<and>
         tries + 1 + n \<le> 1001 \<and>
         x = rnd ?e2 (2 * (n - 1)) * MAP_WIDTH \<and> y = rnd ?e2 (2 * (n - 1) + 1) * MAP_HEIGHT \<and>
         rnd e' = (\<lambda>k. rnd ?e2 (k + 2 * n)) \<and> clk e' = clk ?e2 \<and>
         (tries + 1 + n \<le> 1000 \<longrightarrow> \<not> collidesWithObstacles m (Fin x) (Fin y) 20) \<and>
         (\<forall>j < n - 1. collidesWithObstacles m (Fin (rnd ?e2 (2 * j) * MAP_WIDTH))
                          (Fin (rnd ?e2 (2 * j + 1) * MAP_HEIGHT)) 20)"
      using IH[of "tries + 1" ?e2] ok2 t unfolding tries_def by simp
    then obtain n x y e' where n: "spawnLoop m (tries + 1) ?e2 = ((x, y), tries + 1 + n, e')"
      "1 \<le> n" "tries + 1 + n \<le> 1001"
      "x = rnd ?e2 (2 * (n - 1)) * MAP_WIDTH" "y = rnd ?e2 (2 * (n - 1) + 1) * MAP_HEIGHT"
      "rnd e' = (\<lambda>k. rnd ?e2 (k + 2 * n))" "clk e' = clk ?e2"
      "tries + 1 + n \<le> 1000 \<longrightarrow> \<not> collidesWithObstacles m (Fin x) (Fin y) 20"
      "\<forall>j < n - 1. collidesWithObstacles m (Fin (rnd ?e2 (2 * j) * MAP_WIDTH))
                          (Fin (rnd ?e2 (2 * j + 1) * MAP_HEIGHT)) 20"
      by blast
    have idx: "2 * (n - 1) + 2 = 2 * (Suc n - 1)" using n(2) by simp
    have prev: "\<forall>j < Suc n - 1. collidesWithObstacles m (Fin (rnd e (2 * j) * MAP_WIDTH))
                          (Fin (rnd e (2 * j + 1) * MAP_HEIGHT)) 20"
    proof (intro allI impI)
      fix j assume j: "j < Suc n - 1"
      show "collidesWithObstacles m (Fin (rnd e (2 * j) * MAP_WIDTH)) (Fin (rnd e (2 * j + 1) * MAP_HEIGHT)) 20"
      proof (cases j)
        case 0
        then show ?thesis using c by simp
      next
        case (Suc i)
        then have "i < n - 1" using j by simp
        then show ?thesis using n(9) Suc by (simp add: e2)
      qed
    qed
    show ?thesis
      using eq n(1-3,6-8) prev n(4,5) idx unfolding tries_def
      by (intro exI[of _ "Suc n"] exI[of _ x] exI[of _ y] exI[of _ e'])
         (simp add: e2 add.commute add.left_commute)
  qed
qed



lemma getSafeSpawn_props:
  assumes "rnd_ok e"
  shows "\<exists>n x y e'.
           spawnLoop m 0 e = ((x, y), n, e') \<and> getSafeSpawn m e = ((x, y), e') \<and>
           1 \<le> n \<and> n \<le> 1001 \<and>
           x = rnd e (2 * (n - 1)) * MAP_WIDTH \<and> y = rnd e (2 * (n - 1) + 1) * MAP_HEIGHT \<and>
           0 \<le> x \<and> x < MAP_WIDTH \<and> 0 \<le> y \<and> y < MAP_HEIGHT \<and>
           rnd e' = (\<lambda>k. rnd e (k + 2 * n)) \<and> clk e' = clk e \<and>
           (n \<le> 1000 \<longrightarrow> \<not> collidesWithObstacles m (Fin x) (Fin y) 20) \<and>
           (\<forall>j < n - 1. collidesWithObstacles m (Fin (rnd e (2 * j) * MAP_WIDTH))
                          (Fin (rnd e (2 * j + 1) * MAP_HEIGHT)) 20)"
proof -
  from spawnLoop_props[OF assms, of 0 m] obtain n x y e' where
    n: "spawnLoop m 0 e = ((x, y), n, e')" "1 \<le> n" "n \<le> 1001"
      "x = rnd e (2 * (n - 1)) * MAP_WIDTH" "y = rnd e (2 * (n - 1) + 1) * MAP_HEIGHT"
      "rnd e' = (\<lambda>k. rnd e (k + 2 * n))" "clk e' = clk e"
      "n \<le> 1000 \<longrightarrow> \<not> collidesWithObstacles m (Fin x) (Fin y) 20"
      "\<forall>j < n - 1. collidesWithObstacles m (Fin (rnd e (2 * j) * MAP_WIDTH))
                          (Fin (rnd e (2 * j + 1) * MAP_HEIGHT)) 20"
    by auto
  have g: "getSafeSpawn m e = ((x, y), e')" by (simp add: getSafeSpawn_def n(1))
  have b: "0 \<le> x" "x < MAP_WIDTH" "0 \<le> y" "y < MAP_HEIGHT"
    using assms unfolding n(4,5) rnd_ok_def game_consts
    by (simp_all add: mult_less_cancel_right1 mult.commute)
  show ?thesis using n g b by blast
qed

text \<open>
  Claim C8. \<open>getSafeSpawn\<close> always returns (its loop is a total function, the counter
  is its measure): with random numbers in \<open>[0, 1)\<close> it draws \<open>n\<close> sample points, at least one and
  at most 1001, and returns the last of them, a point with \<open>0 \<le> x < 1250\<close> and
  \<open>0 \<le> y < 650\<close>. Every earlier sample collided; the returned point does not collide at
  radius 20 when fewer than 1001 samples were drawn, and after 1001 samples it is returned
  as it is, colliding or not. There is no error result.
\<close>

theorem getSafeSpawn_bounded:
  assumes "rnd_ok e"
  shows "\<exists>n x y e'.
           spawnLoop m 0 e = ((x, y), n, e') \<and> getSafeSpawn m e = ((x, y), e') \<and>
           1 \<le> n \<and> n \<le> 1001 \<and>
           x = rnd e (2 * (n - 1)) * MAP_WIDTH \<and> y = rnd e (2 * (n - 1) + 1) * MAP_HEIGHT \<and>
           0 \<le> x \<and> x < MAP_WIDTH \<and> 0 \<le> y \<and> y < MAP_HEIGHT \<and>
           rnd e' = (\<lambda>k. rnd e (k + 2 * n)) \<and> clk e' = clk e \<and>
           (n \<le> 1000 \<longrightarrow> \<not> collidesWithObstacles m (Fin x) (Fin y) 20) \<and>
           (\<forall>j < n - 1. collidesWithObstacles m (Fin (rnd e (2 * j) * MAP_WIDTH))
                          (Fin (rnd e (2 * j + 1) * MAP_HEIGHT)) 20)"
  using assms by (rule getSafeSpawn_props)

theorem getSafeSpawn_bounded_witness:
  "rnd_ok (constEnv (1 / 2) 0) \<and>
   fst (getSafeSpawn exArena (constEnv (1 / 2) 0)) = (625, 325) \<and>
   fst (snd (spawnLoop exArena 0 (constEnv (1 / 2) 0))) = 1001 \<and>
   collidesWithObstacles exArena (Fin 625) (Fin 325) 20"
proof -
  let ?e = "constEnv (1 / 2) 0"
  have ok: "rnd_ok ?e" by (simp add: rnd_ok_def constEnv_def)
  have c: "collidesWithObstacles exArena (Fin 625) (Fin 325) 20"
    by (simp add: collidesWithObstacles_def exArena_def jsub_def jgt_def number_small)
  from getSafeSpawn_bounded[OF ok, of exArena] obtain n x y e' where
    n: "spawnLoop exArena 0 ?e = ((x, y), n, e')" "getSafeSpawn exArena ?e = ((x, y), e')"
      "n \<le> 1001" "x = rnd ?e (2 * (n - 1)) * MAP_WIDTH" "y = rnd ?e (2 * (n - 1) + 1) * MAP_HEIGHT"
      "n \<le> 1000 \<longrightarrow> \<not> collidesWithObstacles exArena (Fin x) (Fin y) 20"
    by blast
  have xy: "x = 625" "y = 325" unfolding n(4,5) by (simp_all add: constEnv_def game_consts)
  have "n = 1001" using n(3,6) c xy by auto
  then show ?thesis using ok c n(1,2) xy by simp
qed

section \<open>Generated walls\<close>

lemma isOverlapping_sym: "isOverlapping a b = isOverlapping b a"
  by (auto simp: isOverlapping_def)

lemma noOverlap_snoc:
  assumes "noOverlap ws" "\<not> list_ex (\<lambda>wall. isOverlapping wall nw) ws"
  shows "noOverlap (ws @ [nw])"
  unfolding noOverlap_def
proof (intro allI impI)
  fix i j assume i: "i < length (ws @ [nw])" and j: "j < length (ws @ [nw])" and ne: "i \<noteq> j"
  have new: "\<not> isOverlapping (ws ! k) nw" if "k < length ws" for k
    using assms(2) that by (auto simp: list_ex_iff)
  show "\<not> isOverlapping ((ws @ [nw]) ! i) ((ws @ [nw]) ! j)"
  proof (cases "i < length ws")
    case True
    show ?thesis
    proof (cases "j < length ws")
      case True
      with \<open>i < length ws\<close> assms(1) ne show ?thesis by (simp add: noOverlap_def nth_append)
    next
      case False
      then have "j = length ws" using j by simp
      then show ?thesis using new[OF True] True by (simp add: nth_append)
    qed
  next
    case False
    then have il: "i = length ws" using i by simp
    then have "j < length ws" using j ne by simp
    then show ?thesis using new[of j] il isOverlapping_sym by (simp add: nth_append)
  qed
qed

lemma wallLoop_props:
  assumes "noOverlap ws" "length ws \<le> WALL_COUNT" "tries \<le> MAX_TRIES"
  shows "\<exists>ws' tries' e'. wallLoop ws tries e = (ws', tries', e') \<and> noOverlap ws' \<and>
           length ws' \<le> WALL_COUNT \<and> tries \<le> tries' \<and> tries' \<le> MAX_TRIES \<and>
           (length ws' = WALL_COUNT \<or> tries' = MAX_TRIES) \<and>
           length ws' \<le> length ws + (tries' - tries) \<and>
           rnd e' = (\<lambda>k. rnd e (k + 5 * (tries' - tries)))"
  using assms
proof (induction "MAX_TRIES - tries" arbitrary: ws tries e rule: less_induct)
  case less
  note prems = less.prems and IH = less.hyps
  show ?case
  proof (cases "length ws < WALL_COUNT \<and> tries < MAX_TRIES")
    case False
    then have "wallLoop ws tries e = (ws, tries, e)"
      by (subst wallLoop.simps) auto
    then show ?thesis using prems False by auto
  next
    case True
    let ?nw = "fst (newWall e)" and ?e' = "snd (newWall e)"
    let ?ws = "if \<not> list_ex (\<lambda>wall. isOverlapping wall ?nw) ws then ws @ [?nw] else ws"
    have eq: "wallLoop ws tries e = wallLoop ?ws (tries + 1) ?e'"
      using True by (subst wallLoop.simps) (simp add: case_prod_unfold Let_def)
    have no: "noOverlap ?ws" using prems(1) noOverlap_snoc by auto
    have len: "length ?ws \<le> WALL_COUNT" using True by auto
    have rn: "rnd ?e' = (\<lambda>k. rnd e (k + 5))"
      by (simp add: newWall_def case_prod_unfold Let_def mathRandom_def numeral_eq_Suc)
    have dec: "MAX_TRIES - (tries + 1) < MAX_TRIES - tries" using True by linarith
    have t1: "tries + 1 \<le> MAX_TRIES" using True by linarith
    from IH[OF dec no len t1, of ?e']
    obtain ws' tries' e' where r: "wallLoop ?ws (tries + 1) ?e' = (ws', tries', e')"
      "noOverlap ws'" "length ws' \<le> WALL_COUNT" "tries + 1 \<le> tries'" "tries' \<le> MAX_TRIES"
      "length ws' = WALL_COUNT \<or> tries' = MAX_TRIES"
      "length ws' \<le> length ?ws + (tries' - (tries + 1))"
      "rnd e' = (\<lambda>k. rnd ?e' (k + 5 * (tries' - (tries + 1))))"
      by blast
    have l: "length ws' \<le> length ws + (tries' - tries)" using r(7) r(4) by (auto split: if_splits)
    have "k + 5 * (tries' - (tries + 1)) + 5 = k + 5 * (tries' - tries)" for k
      using r(4) by simp
    then have rr: "rnd e' = (\<lambda>k. rnd e (k + 5 * (tries' - tries)))"
      unfolding r(8) rn by presburger
    show ?thesis using eq r(1-3,5,6) r(4) l rr
      by (intro exI[of _ ws'] exI[of _ tries'] exI[of _ e']) simp
  qed
qed



text \<open>
  Claim C5. The walls of the arena \<open>generateMap\<close> returns are the result of the wall
  loop; no two of them overlap under \<open>isOverlapping\<close>, a strict test that rectangles
  sharing only an edge do not satisfy; there are at most 8; the loop made at most 100
  attempts (five random numbers each), and when it ends with fewer than 8 walls it made
  exactly 100.
\<close>

theorem generateMap_walls:
  "\<exists>ws tries e1.
     wallLoop [] 0 e = (ws, tries, e1) \<and> walls (fst (generateMap e)) = ws \<and>
     (\<forall>i j. i < length ws \<and> j < length ws \<and> i \<noteq> j \<longrightarrow> \<not> isOverlapping (ws ! i) (ws ! j)) \<and>
     length ws \<le> 8 \<and> tries \<le> 100 \<and> length ws \<le> tries \<and>
     (length ws < 8 \<longrightarrow> tries = 100) \<and>
     rnd e1 = (\<lambda>k. rnd e (k + 5 * tries)) \<and>
     (\<forall>a b. wall_x a + wall_w a \<le> wall_x b \<or> wall_x b + wall_w b \<le> wall_x a \<or>
            wall_y a + wall_h a \<le> wall_y b \<or> wall_y b + wall_h b \<le> wall_y a
            \<longrightarrow> \<not> isOverlapping a b)"
proof -
  have "noOverlap []" by (simp add: noOverlap_def)
  from wallLoop_props[OF this, of 0 e] obtain ws tries e1 where
    r: "wallLoop [] 0 e = (ws, tries, e1)" "noOverlap ws" "length ws \<le> WALL_COUNT"
       "tries \<le> MAX_TRIES" "length ws = WALL_COUNT \<or> tries = MAX_TRIES"
       "length ws \<le> tries" "rnd e1 = (\<lambda>k. rnd e (k + 5 * tries))"
    by (auto simp: WALL_COUNT_def MAX_TRIES_def)
  have g: "walls (fst (generateMap e)) = ws"
    by (simp add: generateMap_def r(1) case_prod_unfold)
  have t: "\<forall>a b. wall_x a + wall_w a \<le> wall_x b \<or> wall_x b + wall_w b \<le> wall_x a \<or>
            wall_y a + wall_h a \<le> wall_y b \<or> wall_y b + wall_h b \<le> wall_y a
            \<longrightarrow> \<not> isOverlapping a b"
    by (auto simp: isOverlapping_def)
  have n: "\<forall>i j. i < length ws \<and> j < length ws \<and> i \<noteq> j \<longrightarrow> \<not> isOverlapping (ws ! i) (ws ! j)"
    using r(2) by (simp add: noOverlap_def)
  show ?thesis
    using r(1) g n r(3-7) t unfolding WALL_COUNT_def MAX_TRIES_def
    by (intro exI[of _ ws] exI[of _ tries] exI[of _ e1]) auto
qed

lemma newWall_quarter:
  assumes "rnd e = (\<lambda>n. 1 / 4)"
  shows "fst (newWall e) = wallB" "rnd (snd (newWall e)) = (\<lambda>n. 1 / 4)"
  using assms
  by (simp_all add: newWall_def mathRandom_def case_prod_unfold Let_def wallB_def game_consts)

lemma wallLoop_stuck:
  assumes "rnd e = (\<lambda>n. 1 / 4)" "wallB \<in> set ws" "length ws < WALL_COUNT" "t \<le> MAX_TRIES"
  shows "fst (wallLoop ws t e) = ws \<and> fst (snd (wallLoop ws t e)) = MAX_TRIES"
  using assms
proof (induction "MAX_TRIES - t" arbitrary: t e rule: less_induct)
  case less
  show ?case
  proof (cases "t < MAX_TRIES")
    case False
    then have "t = MAX_TRIES" using less.prems(4) by simp
    then show ?thesis by (subst (1 2) wallLoop.simps) simp
  next
    case True
    have ov: "list_ex (\<lambda>wall. isOverlapping wall (fst (newWall e))) ws"
      unfolding newWall_quarter(1)[OF less.prems(1)] list_ex_iff
      using less.prems(2) by (intro bexI[of _ wallB]) (simp_all add: isOverlapping_def wallB_def)
    have eq: "wallLoop ws t e = wallLoop ws (t + 1) (snd (newWall e))"
      using True less.prems(3) ov by (subst wallLoop.simps) (simp add: case_prod_unfold Let_def)
    have dec: "MAX_TRIES - (t + 1) < MAX_TRIES - t" using True by linarith
    have t1: "t + 1 \<le> MAX_TRIES" using True by linarith
    show ?thesis
      unfolding eq
      using less.hyps[OF dec newWall_quarter(2)[OF less.prems(1)] less.prems(2,3) t1] .
  qed
qed

lemma wallLoop_twoEnv:
  "fst (wallLoop [] 0 twoEnv) = [wallA, wallB] \<and> fst (snd (wallLoop [] 0 twoEnv)) = 100"
proof -
  let ?e1 = "snd (newWall twoEnv)"
  let ?e2 = "snd (newWall ?e1)"
  have a: "fst (newWall twoEnv) = wallA"
    by (simp add: newWall_def mathRandom_def case_prod_unfold Let_def wallA_def game_consts twoEnv_def)
  have r1: "rnd ?e1 = (\<lambda>n. 1 / 4)"
    by (simp add: newWall_def mathRandom_def case_prod_unfold Let_def twoEnv_def fun_eq_iff)
  have s1: "wallLoop [] 0 twoEnv = wallLoop [wallA] (Suc 0) ?e1"
    by (subst wallLoop.simps) (simp add: case_prod_unfold Let_def a WALL_COUNT_def MAX_TRIES_def)
  have nov: "\<not> isOverlapping wallA wallB" by (simp add: isOverlapping_def wallA_def wallB_def)
  have s2: "wallLoop [wallA] (Suc 0) ?e1 = wallLoop [wallA, wallB] (Suc (Suc 0)) ?e2"
    using nov
    by (subst wallLoop.simps)
       (simp add: case_prod_unfold Let_def newWall_quarter[OF r1] WALL_COUNT_def MAX_TRIES_def)
  have "fst (wallLoop [wallA, wallB] (Suc (Suc 0)) ?e2) = [wallA, wallB] \<and>
        fst (snd (wallLoop [wallA, wallB] (Suc (Suc 0)) ?e2)) = MAX_TRIES"
    by (rule wallLoop_stuck[OF newWall_quarter(2)[OF r1]])
       (simp_all add: WALL_COUNT_def MAX_TRIES_def)
  then show ?thesis unfolding s1 s2 by (simp add: MAX_TRIES_def)
qed

theorem generateMap_walls_witness:
  "walls (fst (generateMap twoEnv)) = [wallA, wallB] \<and>
   \<not> isOverlapping wallA wallB \<and> \<not> isOverlapping wallB wallA \<and>
   fst (snd (wallLoop [] 0 twoEnv)) = 100 \<and>
   \<not> isOverlapping \<lparr>wall_x = 0, wall_y = 0, wall_w = 10, wall_h = 10\<rparr>
                    \<lparr>wall_x = 10, wall_y = 0, wall_w = 10, wall_h = 10\<rparr>"
proof -
  from generateMap_walls[of twoEnv] obtain ws tries e1 where
    r: "wallLoop [] 0 twoEnv = (ws, tries, e1)" "walls (fst (generateMap twoEnv)) = ws"
       "\<forall>i j. i < length ws \<and> j < length ws \<and> i \<noteq> j \<longrightarrow> \<not> isOverlapping (ws ! i) (ws ! j)"
       "length ws < 8 \<longrightarrow> tries = 100"
       "\<forall>a b. wall_x a + wall_w a \<le> wall_x b \<or> wall_x b + wall_w b \<le> wall_x a \<or>
            wall_y a + wall_h a \<le> wall_y b \<or> wall_y b + wall_h b \<le> wall_y a
            \<longrightarrow> \<not> isOverlapping a b"
    by blast
  have ws: "ws = [wallA, wallB]" using wallLoop_twoEnv r(1) by simp
  have t: "tries = 100" using r(4) ws by simp
  have "\<not> isOverlapping (ws ! 0) (ws ! 1)" "\<not> isOverlapping (ws ! 1) (ws ! 0)"
    using r(3)[rule_format, of 0 1] r(3)[rule_format, of 1 0] ws by simp_all
  then have n: "\<not> isOverlapping wallA wallB" "\<not> isOverlapping wallB wallA" by (simp_all add: ws)
  have "\<not> isOverlapping \<lparr>wall_x = 0, wall_y = 0, wall_w = 10, wall_h = 10\<rparr>
                    \<lparr>wall_x = 10, wall_y = 0, wall_w = 10, wall_h = 10\<rparr>"
    using r(5) by simp
  then show ?thesis using r(1,2) ws t n by simp
qed

section \<open>Health and position\<close>



lemma rnd_dateNow [simp]: "rnd (snd (dateNow e)) = rnd e"
  by (simp add: dateNow_def)





lemma playerInv_posInv: "playerInv lax p = (0 \<le> p_hp p \<and> p_hp p \<le> 100 \<and> posInv lax p)"
  by (simp add: playerInv_def posInv_def)




lemma players_broadcast [simp]: "players (broadcast ev r) = players r"
  by (simp add: broadcast_def)

lemma players_broadcastPlayerList [simp]: "players (broadcastPlayerList r) = players r"
  by (simp add: broadcastPlayerList_def)

lemma players_stopTimer [simp]: "players (stopTimer r) = players r"
  by (simp add: stopTimer_def)






lemma playerInv_inputs [simp]: "playerInv lax (p\<lparr>p_inputs := q\<rparr>) = playerInv lax p"
  by (simp add: playerInv_def)

lemma playerInv_ready [simp]: "playerInv lax (p\<lparr>p_ready := q\<rparr>) = playerInv lax p"
  by (simp add: playerInv_def)











text \<open>
  The movement step: a coordinate that is within the bounds or NaN stays so, and a
  coordinate within the bounds stays within them when the velocity is not NaN.
\<close>

lemma movePlayer_hp [simp]: "p_hp (movePlayer m p) = p_hp p"
  by (simp add: movePlayer_def Let_def)

















subsection \<open>An input that overflows\<close>


lemma players_snapshot [simp]: "players (snd (snapshot e r)) = players r"
  by (simp add: snapshot_def case_prod_unfold)








subsection \<open>A tick with a finite velocity\<close>




lemma matchRunning_addPlayer [simp]:
  "matchRunning (snd (addPlayer sid nm e r)) = matchRunning r"
  by (simp add: addPlayer_def case_prod_unfold Let_def broadcastPlayerList_def broadcast_def)

lemma matchRunning_newGameRoom [simp]: "\<not> matchRunning (fst (newGameRoom nm e))"
  by (simp add: newGameRoom_def case_prod_unfold)


section \<open>Bullet identities\<close>

lemma spawnBullet_bullets:
  "bullets (snd (spawnBullet owner x y a e r)) =
     AList.update (bulletIdent owner e)
       \<lparr>b_id = bulletIdent owner e, b_x = x, b_y = y, b_vx = jmul (jcos a) (Fin 400),
        b_vy = jmul (jsin a) (Fin 400), b_owner = owner, b_life = 2.5\<rparr> (bullets r)"
  by (simp add: spawnBullet_def bulletIdent_def dateNow_def mathRandom_def Let_def)

lemma spawnBullet_env:
  "fst (spawnBullet owner x y a e r) = e\<lparr>clk := \<lambda>n. clk e (Suc n), rnd := \<lambda>n. rnd e (Suc n)\<rparr>"
  by (simp add: spawnBullet_def dateNow_def mathRandom_def Let_def)

lemma set_update_subset: "set (AList.update k v al) \<subseteq> insert (k, v) (set al)"
  by (induction al) auto

lemma idsOk_update:
  assumes "idsOk bs" "b_id b = k"
  shows "idsOk (AList.update k b bs)"
proof -
  have "distinct (map fst (AList.update k b bs))"
    using assms(1) by (simp add: idsOk_def distinct_update)
  moreover have "\<forall>(k', b') \<in> set (AList.update k b bs). b_id b' = k'"
    using assms set_update_subset[of k b bs] by (auto simp: idsOk_def)
  ultimately show ?thesis by (simp add: idsOk_def)
qed

lemma idsOk_spawnBullet: "idsOk (bullets r) \<Longrightarrow> idsOk (bullets (snd (spawnBullet owner x y a e r)))"
  by (simp add: spawnBullet_bullets idsOk_update)

lemma idsOk_spawnAll: "idsOk (bullets r) \<Longrightarrow> idsOk (bullets (snd (spawnAll ss e r)))"
proof (induction ss arbitrary: e r)
  case Nil
  then show ?case by simp
next
  case (Cons s ss)
  obtain owner x y a where s: "s = (owner, x, y, a)" by (cases s)
  show ?case
    using Cons.IH[OF idsOk_spawnBullet[OF Cons.prems, of owner x y a e]]
    by (simp add: s case_prod_unfold)
qed

lemma idsOk_distinct_ids: "idsOk bs \<Longrightarrow> distinct (map (\<lambda>(k, b). b_id b) bs)"
proof -
  assume a: "idsOk bs"
  then have "map (\<lambda>(k, b). b_id b) bs = map fst bs"
    by (intro map_cong) (auto simp: idsOk_def)
  then show ?thesis using a by (simp only: idsOk_def)
qed

lemma map_fst_update_mem:
  "k \<in> fst ` set al \<Longrightarrow> map fst (AList.update k v' al) = map fst al"
  by (induction al) (auto split: if_splits)

lemma update_notin: "k \<notin> fst ` set al \<Longrightarrow> AList.update k v al = al @ [(k, v)]"
  by (induction al) (auto split: if_splits)

text \<open>
  Claim C9, as amended. From a bullet Map with one entry per key whose bullets are stored
  under their own identities, every sequence of bullet spawns leaves the identities in the
  store pairwise distinct, because the Map is keyed by the identity: the new bullet is
  stored under the identity \<open>spawnBullet\<close> derives; when that identity is already in the
  store the bullet stored under it is replaced and the store does not grow, otherwise the
  new bullet is added at the end. The derived identity itself need not be new.
\<close>

theorem bullet_store_identities_distinct:
  assumes "distinct (map fst (bullets r))" "\<forall>(k, b) \<in> set (bullets r). b_id b = k"
  shows "distinct (map (\<lambda>(k, b). b_id b) (bullets (snd (spawnAll ss e r)))) \<and>
         distinct (map fst (bullets (snd (spawnAll ss e r)))) \<and>
         (\<forall>(k, b) \<in> set (bullets (snd (spawnAll ss e r))). b_id b = k) \<and>
         map_of (bullets (snd (spawnBullet owner x y a e r))) (bulletIdent owner e) =
           Some \<lparr>b_id = bulletIdent owner e, b_x = x, b_y = y,
                 b_vx = jmul (jcos a) (Fin 400), b_vy = jmul (jsin a) (Fin 400),
                 b_owner = owner, b_life = 2.5\<rparr> \<and>
         (bulletIdent owner e \<in> fst ` set (bullets r) \<longrightarrow>
            map fst (bullets (snd (spawnBullet owner x y a e r))) = map fst (bullets r)) \<and>
         (bulletIdent owner e \<notin> fst ` set (bullets r) \<longrightarrow>
            map fst (bullets (snd (spawnBullet owner x y a e r))) =
              map fst (bullets r) @ [bulletIdent owner e])"
proof -
  have ok: "idsOk (bullets r)" using assms by (simp add: idsOk_def)
  note a = idsOk_spawnAll[OF ok, of ss e]
  have 1: "distinct (map (\<lambda>(k, b). b_id b) (bullets (snd (spawnAll ss e r))))"
    using a by (rule idsOk_distinct_ids)
  have 2: "distinct (map fst (bullets (snd (spawnAll ss e r))))"
    "\<forall>(k, b) \<in> set (bullets (snd (spawnAll ss e r))). b_id b = k"
    using a by (simp_all add: idsOk_def)
  have 3: "map_of (bullets (snd (spawnBullet owner x y a e r))) (bulletIdent owner e) =
           Some \<lparr>b_id = bulletIdent owner e, b_x = x, b_y = y,
                 b_vx = jmul (jcos a) (Fin 400), b_vy = jmul (jsin a) (Fin 400),
                 b_owner = owner, b_life = 2.5\<rparr>"
    by (simp add: spawnBullet_bullets update_conv')
  have 4: "bulletIdent owner e \<in> fst ` set (bullets r) \<longrightarrow>
            map fst (bullets (snd (spawnBullet owner x y a e r))) = map fst (bullets r)"
    by (simp add: spawnBullet_bullets map_fst_update_mem)
  have 5: "bulletIdent owner e \<notin> fst ` set (bullets r) \<longrightarrow>
            map fst (bullets (snd (spawnBullet owner x y a e r))) =
              map fst (bullets r) @ [bulletIdent owner e]"
    by (simp add: spawnBullet_bullets update_notin)
  show ?thesis using 1 2 3 4 5 by blast
qed

lemma showNat_now: "showNat 1700000000000 = ''1700000000000''"
  by (simp add: showNat.simps digitChar_def)

lemma randomSuffix_unfold: "randomSuffix v = digits36 (Suc (Suc (Suc (Suc 0)))) v"
  by (simp add: randomSuffix_def numeral_eq_Suc)

lemma suffix1: "randomSuffix (1 / 2 + 1 / 60466176) = ''i000''"
  by (simp add: randomSuffix_unfold digitChar_def)

lemma suffix2: "randomSuffix (1 / 2 + 2 / 60466176) = ''i000''"
  by (simp add: randomSuffix_unfold digitChar_def)

lemma suffix1_norm: "randomSuffix (30233089 / 60466176) = ''i000''"
  using suffix1 by simp

lemma suffix2_norm: "randomSuffix (15116545 / 30233088) = ''i000''"
  using suffix2 by simp

lemma collide_ident1: "bulletIdent ''a'' collideEnv = ''a-1700000000000-i000''"
  by (simp add: bulletIdent_def collideEnv_def showNat_now suffix1_norm)

lemma collide_ident2:
  "bulletIdent ''a'' (fst (spawnBullet ''a'' x y a collideEnv r)) = ''a-1700000000000-i000''"
  by (simp add: bulletIdent_def spawnBullet_env collideEnv_def showNat_now suffix2_norm)

text \<open>
  Claim C9, as stated, fails: the derived identity is not unique within the room. Two
  spawns by the same owner in the same millisecond, with two different random numbers
  that agree in their first four base-36 digits, derive the same identity; the second
  bullet replaces the first in the store.
\<close>

theorem bullet_identity_not_unique:
  "rnd collideEnv 0 \<noteq> rnd collideEnv 1 \<and>
   map fst (bullets (snd (spawnBullet ''a'' (Fin 120) (Fin 100) (Fin 0) collideEnv (mkRoom [] True)))) =
     [''a-1700000000000-i000''] \<and>
   bulletIdent ''a'' (fst (spawnBullet ''a'' (Fin 120) (Fin 100) (Fin 0) collideEnv (mkRoom [] True))) \<in>
     fst ` set (bullets (snd (spawnBullet ''a'' (Fin 120) (Fin 100) (Fin 0) collideEnv (mkRoom [] True)))) \<and>
   map (\<lambda>(k, b). (k, b_y b))
     (bullets (snd (spawnAll [(''a'', Fin 120, Fin 100, Fin 0), (''a'', Fin 120, Fin 300, Fin 0)] collideEnv (mkRoom [] True))))
     = [(''a-1700000000000-i000'', Fin 300)]"
proof -
  let ?s1 = "spawnBullet ''a'' (Fin 120) (Fin 100) (Fin 0) collideEnv (mkRoom [] True)"
  have 0: "rnd collideEnv 0 \<noteq> rnd collideEnv 1" by (simp add: collideEnv_def)
  have b1: "bullets (snd ?s1) = [(''a-1700000000000-i000'',
      \<lparr>b_id = ''a-1700000000000-i000'', b_x = Fin 120, b_y = Fin 100, b_vx = Fin 400, b_vy = Fin 0,
       b_owner = ''a'', b_life = 2.5\<rparr>)]"
    by (simp add: spawnBullet_bullets collide_ident1 mkRoom_def number_small)
  have 1: "map fst (bullets (snd ?s1)) = [''a-1700000000000-i000'']" by (simp add: b1)
  have 2: "bulletIdent ''a'' (fst ?s1) \<in> fst ` set (bullets (snd ?s1))"
    by (simp add: collide_ident2 b1)
  have "bullets (snd (spawnBullet ''a'' (Fin 120) (Fin 300) (Fin 0) (fst ?s1) (snd ?s1))) =
      [(''a-1700000000000-i000'',
      \<lparr>b_id = ''a-1700000000000-i000'', b_x = Fin 120, b_y = Fin 300, b_vx = Fin 400, b_vy = Fin 0,
       b_owner = ''a'', b_life = 2.5\<rparr>)]"
    by (subst spawnBullet_bullets) (simp add: collide_ident2 b1 number_small)
  then have 3: "map (\<lambda>(k, b). (k, b_y b))
     (bullets (snd (spawnAll [(''a'', Fin 120, Fin 100, Fin 0), (''a'', Fin 120, Fin 300, Fin 0)] collideEnv (mkRoom [] True))))
     = [(''a-1700000000000-i000'', Fin 300)]"
    by (simp add: case_prod_unfold)
  show ?thesis using 0 1 2 3 by blast
qed

theorem bullet_store_identities_distinct_witness:
  "distinct (map fst (bullets ((mkRoom [] True)\<lparr>bullets := [(''x'', exBullet)]\<rparr>))) \<and>
   list_all (\<lambda>(k, b). b_id b = k) (bullets ((mkRoom [] True)\<lparr>bullets := [(''x'', exBullet)]\<rparr>)) \<and>
   distinct (map (\<lambda>(k, b). b_id b)
     (bullets (snd (spawnAll [(''a'', Fin 120, Fin 100, Fin 0), (''a'', Fin 120, Fin 300, Fin 0)] collideEnv
        ((mkRoom [] True)\<lparr>bullets := [(''x'', exBullet)]\<rparr>))))) \<and>
   map fst (bullets (snd (spawnBullet ''a'' (Fin 120) (Fin 100) (Fin 0) collideEnv
        ((mkRoom [] True)\<lparr>bullets := [(''x'', exBullet)]\<rparr>)))) =
     [''x'', ''a-1700000000000-i000'']"
proof -
  let ?R = "(mkRoom [] True)\<lparr>bullets := [(''x'', exBullet)]\<rparr>"
  have d: "distinct (map fst (bullets ?R))" by simp
  have i: "list_all (\<lambda>(k, b). b_id b = k) (bullets ?R)" by (simp add: exBullet_def)
  then have i': "\<forall>(k, b) \<in> set (bullets ?R). b_id b = k" by (simp add: list_all_iff)
  have n: "bulletIdent ''a'' collideEnv \<notin> fst ` set (bullets ?R)"
    by (simp add: collide_ident1)
  note T = bullet_store_identities_distinct[OF d i',
      of "[(''a'', Fin 120, Fin 100, Fin 0), (''a'', Fin 120, Fin 300, Fin 0)]" collideEnv "''a''" "Fin 120" "Fin 100" "Fin 0"]
  from T have 1: "distinct (map (\<lambda>(k, b). b_id b)
     (bullets (snd (spawnAll [(''a'', Fin 120, Fin 100, Fin 0), (''a'', Fin 120, Fin 300, Fin 0)] collideEnv ?R))))"
    by blast
  from T n have "map fst (bullets (snd (spawnBullet ''a'' (Fin 120) (Fin 100) (Fin 0) collideEnv ?R))) =
     map fst (bullets ?R) @ [bulletIdent ''a'' collideEnv]"
    by blast
  then have 2: "map fst (bullets (snd (spawnBullet ''a'' (Fin 120) (Fin 100) (Fin 0) collideEnv ?R))) =
     [''x'', ''a-1700000000000-i000'']"
    by (simp add: collide_ident1)
  show ?thesis using d i 1 2 by blast
qed

section \<open>The lifetime of a bullet\<close>

lemma stepBullet_bullets:
  "bullets (snd (stepBullet (k, b0) (e, r))) = AList.delete k (bullets r) \<or>
   bullets (snd (stepBullet (k, b0) (e, r))) = AList.update k (advanceBullet b0) (bullets r)"
  by (simp add: stepBullet_def Let_def broadcast_def case_prod_unfold split: option.splits)

lemma stepBullet_other:
  assumes "k \<noteq> bid"
  shows "map_of (bullets (snd (stepBullet (k, b0) s))) bid = map_of (bullets (snd s)) bid"
proof -
  obtain e r where s: "s = (e, r)" by (cases s)
  show ?thesis using stepBullet_bullets[of k b0 e r] assms
    by (auto simp: s update_conv' delete_conv')
qed

lemma fold_stepBullet_other:
  assumes "\<forall>(k, b0) \<in> set bs. k \<noteq> bid"
  shows "map_of (bullets (snd (fold stepBullet bs s))) bid = map_of (bullets (snd s)) bid"
  using assms
proof (induction bs arbitrary: s)
  case Nil
  then show ?case by simp
next
  case (Cons kb bs)
  obtain k b0 where kb: "kb = (k, b0)" by (cases kb)
  have "k \<noteq> bid" using Cons.prems kb by simp
  from stepBullet_other[OF this] Cons show ?case by (simp add: kb)
qed

lemma stepBullet_own:
  "map_of (bullets (snd (stepBullet (bid, b) (e, r)))) bid =
     (if b_life (advanceBullet b) \<le> 0 then None
      else if strikes r (advanceBullet b) then None
      else Some (advanceBullet b))"
  by (simp add: stepBullet_def strikes_def Let_def broadcast_def case_prod_unfold
      update_conv' delete_conv' split: option.splits)

lemma split_at_key:
  assumes "distinct (map fst bs)" "map_of bs bid = Some b"
  shows "\<exists>post. bs = takeWhile (\<lambda>(k, b). k \<noteq> bid) bs @ (bid, b) # post \<and>
               (\<forall>(k, b0) \<in> set post. k \<noteq> bid)"
  using assms
proof (induction bs)
  case Nil
  then show ?case by simp
next
  case (Cons a bs)
  obtain k v where a: "a = (k, v)" by (cases a)
  show ?case
  proof (cases "k = bid")
    case True
    then have "v = b" using Cons.prems(2) a by simp
    moreover have "\<forall>(k', b0) \<in> set bs. k' \<noteq> bid"
      using Cons.prems(1) a True by (auto simp: image_iff)
    ultimately show ?thesis using a True by simp
  next
    case False
    then have "map_of bs bid = Some b" using Cons.prems(2) a by simp
    from Cons.IH[OF _ this] Cons.prems(1) obtain post where
      "bs = takeWhile (\<lambda>(k, b). k \<noteq> bid) bs @ (bid, b) # post" "\<forall>(k, b0) \<in> set post. k \<noteq> bid"
      by auto
    then show ?thesis using a False by (intro exI[of _ post]) simp
  qed
qed

lemma moveBullets_own:
  assumes "distinct (map fst (bullets r))" "map_of (bullets r) bid = Some b"
    "b_life (advanceBullet b) \<le> 0 \<or> \<not> strikes (snd (beforeBullet bid (e, r))) (advanceBullet b)"
  shows "map_of (bullets (snd (moveBullets e r))) bid =
           (if b_life (advanceBullet b) \<le> 0 then None else Some (advanceBullet b))"
proof -
  let ?pre = "takeWhile (\<lambda>(k, b). k \<noteq> bid) (bullets r)"
  from split_at_key[OF assms(1,2)] obtain post where
    sp: "bullets r = ?pre @ (bid, b) # post" and post: "\<forall>(k, b0) \<in> set post. k \<noteq> bid"
    by blast
  let ?s1 = "fold stepBullet ?pre (e, r)"
  have s1: "?s1 = beforeBullet bid (e, r)" by (simp add: beforeBullet_def)
  have "moveBullets e r = fold stepBullet (?pre @ (bid, b) # post) (e, r)"
    unfolding moveBullets_def using sp by simp
  then have mb: "moveBullets e r = fold stepBullet post (stepBullet (bid, b) ?s1)"
    by simp
  have "map_of (bullets (snd (stepBullet (bid, b) ?s1))) bid =
          (if b_life (advanceBullet b) \<le> 0 then None else Some (advanceBullet b))"
    using stepBullet_own[of bid b "fst ?s1" "snd ?s1"] assms(3) unfolding s1 by auto
  then show ?thesis unfolding mb using fold_stepBullet_other[OF post] by simp
qed

lemma distinct_stepBullet:
  "distinct (map fst (bullets (snd s))) \<Longrightarrow> distinct (map fst (bullets (snd (stepBullet kb s))))"
proof -
  assume d: "distinct (map fst (bullets (snd s)))"
  obtain e r where s: "s = (e, r)" by (cases s)
  obtain k b0 where kb: "kb = (k, b0)" by (cases kb)
  show ?thesis using stepBullet_bullets[of k b0 e r] d
    by (auto simp: s kb distinct_update distinct_delete)
qed

lemma distinct_moveBullets:
  "distinct (map fst (bullets r)) \<Longrightarrow> distinct (map fst (bullets (snd (moveBullets e r))))"
proof -
  have "distinct (map fst (bullets (snd s))) \<Longrightarrow>
        distinct (map fst (bullets (snd (fold stepBullet bs s))))" for bs s
    by (induction bs arbitrary: s) (simp_all add: distinct_stepBullet)
  from this[of "(e, r)" "bullets r"] show "distinct (map fst (bullets r)) \<Longrightarrow> ?thesis"
    by (simp add: moveBullets_def)
qed

lemma distinct_spawnBullet:
  "distinct (map fst (bullets r)) \<Longrightarrow> distinct (map fst (bullets (snd (spawnBullet o' x y a e r))))"
  by (simp add: spawnBullet_bullets distinct_update)

lemma distinct_drainInputs:
  "distinct (map fst (bullets r)) \<Longrightarrow>
   distinct (map fst (bullets (snd (snd (drainInputs ident q p e r)))))"
proof (induction q arbitrary: p e r)
  case Nil
  then show ?case by simp
next
  case (Cons inp rest)
  show ?case
  proof (cases "i_fire inp")
    case True
    let ?a = "jadd (p_a p) (jmul (jmul (orZero (i_turn inp)) (Fin 8)) (Fin GAME_DT))"
    let ?sb = "spawnBullet ident (jadd (p_x p) (jmul (jcos ?a) (Fin 20)))
                 (jadd (p_y p) (jmul (jsin ?a) (Fin 20))) ?a e r"
    have "distinct (map fst (bullets (snd ?sb)))" using Cons.prems by (rule distinct_spawnBullet)
    from Cons.IH[OF this] True show ?thesis by (simp add: Let_def case_prod_unfold)
  next
    case False
    then show ?thesis using Cons.IH[OF Cons.prems] by (simp add: Let_def)
  qed
qed

lemma distinct_processInputs:
  "distinct (map fst (bullets r)) \<Longrightarrow> distinct (map fst (bullets (snd (processInputs ps e r))))"
proof (induction ps arbitrary: e r)
  case Nil
  then show ?case by simp
next
  case (Cons kp ps)
  obtain k p where kp: "kp = (k, p)" by (cases kp)
  let ?d = "drainInputs k (p_inputs p) p e r"
  let ?r = "(snd (snd ?d))\<lparr>players := AList.update k (fst ?d) (players (snd (snd ?d)))\<rparr>"
  have "distinct (map fst (bullets ?r))" using distinct_drainInputs[OF Cons.prems] by simp
  from Cons.IH[OF this] show ?case by (simp add: kp case_prod_unfold)
qed

lemma tick_bullet:
  assumes "matchRunning r" "distinct (map fst (bullets r))"
    "map_of (bullets (snd (afterInputs (e, r)))) bid = Some b" "noStrike bid (e, r) b"
  shows "map_of (bullets (snd (tick e r))) bid =
           (if b_life (advanceBullet b) \<le> 0 then None else Some (advanceBullet b))"
    and "distinct (map fst (bullets (snd (tick e r))))"
proof -
  let ?r0 = "r\<lparr>seq := seq r + 1\<rparr>"
  let ?s1 = "afterInputs (e, r)"
  let ?r2 = "movePlayers (snd ?s1)"
  have s1: "?s1 = processInputs (players ?r0) e ?r0" by (simp add: afterInputs_def)
  have c: "b_life (advanceBullet b) \<le> 0 \<or>
       \<not> strikes (snd (beforeBullet bid (fst ?s1, ?r2))) (advanceBullet b)"
    using assms(4) by (simp add: noStrike_def)
  have d1: "distinct (map fst (bullets (snd ?s1)))"
    unfolding s1 using distinct_processInputs[of ?r0] assms(2) by simp
  have b2: "bullets ?r2 = bullets (snd ?s1)" by (simp add: movePlayers_def)
  have m: "map_of (bullets ?r2) bid = Some b" unfolding b2 by (rule assms(3))
  have d2: "distinct (map fst (bullets ?r2))" unfolding b2 by (rule d1)
  have t: "bullets (snd (tick e r)) = bullets (snd (moveBullets (fst ?s1) ?r2))"
    using assms(1)
    by (simp add: tick_def Let_def case_prod_unfold snapshot_def broadcast_def afterInputs_def)
  show "map_of (bullets (snd (tick e r))) bid =
           (if b_life (advanceBullet b) \<le> 0 then None else Some (advanceBullet b))"
    unfolding t by (rule moveBullets_own[OF d2 m c])
  show "distinct (map fst (bullets (snd (tick e r))))"
    unfolding t by (rule distinct_moveBullets[OF d2])
qed

lemma clearTick_bullet:
  assumes "clearTick bid (e, r)" "map_of (bullets r) bid = Some b"
  shows "map_of (bullets (snd (afterInputs (e, r)))) bid = Some b" "noStrike bid (e, r) b"
  using assms by (simp_all add: clearTick_def)

text \<open>A bullet that the input loop puts into the store has lifetime 2.5.\<close>

lemma spawnBullet_new:
  assumes "map_of (bullets (snd (spawnBullet owner x y a e r))) k = Some b"
  shows "map_of (bullets r) k = Some b \<or> b_life b = 2.5"
  using assms by (auto simp: spawnBullet_bullets update_conv' split: if_splits)

lemma drainInputs_new:
  assumes "map_of (bullets (snd (snd (drainInputs ident q p e r)))) k = Some b"
  shows "map_of (bullets r) k = Some b \<or> b_life b = 2.5"
  using assms
proof (induction q arbitrary: p e r)
  case Nil
  then show ?case by simp
next
  case (Cons inp rest)
  show ?case
  proof (cases "i_fire inp")
    case True
    let ?a = "jadd (p_a p) (jmul (jmul (orZero (i_turn inp)) (Fin 8)) (Fin GAME_DT))"
    let ?sb = "spawnBullet ident (jadd (p_x p) (jmul (jcos ?a) (Fin 20)))
                 (jadd (p_y p) (jmul (jsin ?a) (Fin 20))) ?a e r"
    have "map_of (bullets (snd ?sb)) k = Some b \<or> b_life b = 2.5"
      using Cons.prems True by (intro Cons.IH) (simp add: Let_def case_prod_unfold)
    then show ?thesis using spawnBullet_new by blast
  next
    case False
    show ?thesis using Cons.prems False by (intro Cons.IH) (simp add: Let_def)
  qed
qed

lemma processInputs_new:
  assumes "map_of (bullets (snd (processInputs ps e r))) k = Some b"
  shows "map_of (bullets r) k = Some b \<or> b_life b = 2.5"
  using assms
proof (induction ps arbitrary: e r)
  case Nil
  then show ?case by simp
next
  case (Cons kp ps)
  obtain i p where kp: "kp = (i, p)" by (cases kp)
  let ?d = "drainInputs i (p_inputs p) p e r"
  let ?r = "(snd (snd ?d))\<lparr>players := AList.update i (fst ?d) (players (snd (snd ?d)))\<rparr>"
  have "map_of (bullets ?r) k = Some b \<or> b_life b = 2.5"
    using Cons.prems by (intro Cons.IH) (simp add: kp case_prod_unfold)
  then have "map_of (bullets (snd (snd ?d))) k = Some b \<or> b_life b = 2.5" by simp
  then show ?case using drainInputs_new by blast
qed

lemma spawned_life:
  assumes "map_of (bullets r) bid = None" "map_of (bullets (snd (afterInputs (e, r)))) bid = Some b"
  shows "b_life b = 2.5"
  using processInputs_new[of "players (r\<lparr>seq := seq r + 1\<rparr>)" e "r\<lparr>seq := seq r + 1\<rparr>" bid b] assms
  by (simp add: afterInputs_def)

lemma step_not_tick_bullets:
  assumes "matchRunning r" "a \<noteq> Tick"
  shows "bullets (snd (step a (e, r))) = bullets r"
proof (cases a)
  case (AddPlayer sid nm)
  then show ?thesis by (simp add: addPlayer_def case_prod_unfold Let_def broadcastPlayerList_def broadcast_def)
next
  case (RemovePlayer sid)
  then show ?thesis using assms(1)
    by (simp add: removePlayer_def case_prod_unfold Let_def broadcastPlayerList_def broadcast_def stopTimer_def)
next
  case (ReceiveInput sid inp)
  then show ?thesis by (simp add: receiveInput_def split: option.splits)
next
  case (SetPlayerReady sid b)
  then show ?thesis using assms(1)
    by (simp add: setPlayerReady_def case_prod_unfold Let_def broadcastPlayerList_def broadcast_def
        startMatch_def split: option.splits)
next
  case UpdateTimer
  then show ?thesis
    by (simp add: updateTimer_def endMatch_def Let_def broadcastPlayerList_def broadcast_def stopTimer_def)
next
  case Tick
  then show ?thesis using assms(2) by simp
qed



lemma run_Cons: "run (a # acts) s = run acts (step a s)"
  by (simp add: run_def)

lemma no_tick_bullets:
  assumes "undisturbed bid acts s" "count_list acts Tick = 0"
  shows "bullets (snd (run acts s)) = bullets (snd s)"
  using assms
proof (induction acts arbitrary: s)
  case Nil
  then show ?case by (simp add: run_def)
next
  case (Cons a acts)
  obtain e r where s: "s = (e, r)" by (cases s)
  have nt: "a \<noteq> Tick" using Cons.prems(2) by (auto split: if_splits)
  have run: "matchRunning r" "undisturbed bid acts (step a s)"
    using Cons.prems(1) by (simp_all add: s)
  have c: "count_list acts Tick = 0" using Cons.prems(2) by (simp split: if_splits)
  show ?case
    using Cons.IH[OF run(2) c] step_not_tick_bullets[OF run(1) nt, of e]
    by (simp add: run_Cons s)
qed

lemma life_funpow: "b_life ((advanceBullet ^^ n) b) = b_life b - real n * GAME_DT"
  by (induction n) (simp_all add: advanceBullet_def algebra_simps)

lemma flight:
  assumes "undisturbed bid acts (e, r)" "distinct (map fst (bullets r))"
    "map_of (bullets r) bid = Some b"
  shows "(b_life b - real (count_list acts Tick) * GAME_DT > 0 \<longrightarrow>
            map_of (bullets (snd (run acts (e, r)))) bid =
              Some ((advanceBullet ^^ count_list acts Tick) b)) \<and>
         (1 \<le> count_list acts Tick \<and>
          b_life b - real (count_list acts Tick - 1) * GAME_DT > 0 \<and>
          b_life b - real (count_list acts Tick) * GAME_DT \<le> 0 \<longrightarrow>
            map_of (bullets (snd (run acts (e, r)))) bid = None)"
  using assms
proof (induction acts arbitrary: e r b)
  case Nil
  then show ?case by (simp add: run_def)
next
  case (Cons a acts)
  let ?n = "count_list acts Tick"
  have dt: "GAME_DT > 0" by (simp add: game_consts)
  have u: "matchRunning r" "a \<noteq> Tick \<or> clearTick bid (e, r)" "undisturbed bid acts (step a (e, r))"
    using Cons.prems(1) by simp_all
  show ?case
  proof (cases "a = Tick")
    case False
    have b: "bullets (snd (step a (e, r))) = bullets r"
      using step_not_tick_bullets[OF u(1) False] .
    obtain e' r' where st: "step a (e, r) = (e', r')" by (cases "step a (e, r)")
    have "distinct (map fst (bullets r'))" "map_of (bullets r') bid = Some b"
      using b st Cons.prems(2,3) by simp_all
    note IH = Cons.IH[OF u(3)[unfolded st] this]
    have cnt: "count_list (a # acts) Tick = ?n" using False by simp
    have rn: "run (a # acts) (e, r) = run acts (e', r')" by (simp add: run_Cons st)
    show ?thesis unfolding cnt rn by (rule IH)
  next
    case True
    then have ct: "clearTick bid (e, r)" using u(2) by simp
    note tb = tick_bullet[OF u(1) Cons.prems(2) clearTick_bullet[OF ct Cons.prems(3)]]
    have cnt: "count_list (a # acts) Tick = Suc ?n" using True by simp
    obtain e' r' where st: "tick e r = (e', r')" by (cases "tick e r")
    have stp: "step a (e, r) = (e', r')" using True st by simp
    show ?thesis
    proof (cases "b_life (advanceBullet b) \<le> 0")
      case expired: True
      then have l1: "b_life b - GAME_DT \<le> 0" by (simp add: advanceBullet_def)
      have gone: "map_of (bullets r') bid = None" using tb(1) expired st by simp
      have first: "\<not> b_life b - real (Suc ?n) * GAME_DT > 0"
      proof -
        have "real (Suc ?n) * GAME_DT \<ge> GAME_DT" using dt by (simp add: algebra_simps)
        then show ?thesis using l1 by linarith
      qed
      have second: "map_of (bullets (snd (run (a # acts) (e, r)))) bid = None"
        if "b_life b - real (Suc ?n - 1) * GAME_DT > 0"
      proof -
        have "real ?n * GAME_DT < GAME_DT" using that l1 by simp
        then have "real ?n < 1" using dt by simp
        then have "?n = 0" by simp
        from no_tick_bullets[OF u(3)[unfolded stp] this] gone show ?thesis
          by (simp add: run_Cons stp)
      qed
      show ?thesis unfolding cnt using first second by blast
    next
      case alive: False
      then have l1: "b_life b - GAME_DT > 0" by (simp add: advanceBullet_def)
      have here: "map_of (bullets r') bid = Some (advanceBullet b)" using tb(1) alive st by simp
      have d: "distinct (map fst (bullets r'))" using tb(2) st by simp
      note IH = Cons.IH[OF u(3)[unfolded stp] d here]
      have lb: "b_life (advanceBullet b) = b_life b - GAME_DT" by (simp add: advanceBullet_def)
      have e1: "b_life (advanceBullet b) - real ?n * GAME_DT = b_life b - real (Suc ?n) * GAME_DT"
        by (simp add: lb algebra_simps)
      have fp: "(advanceBullet ^^ ?n) (advanceBullet b) = (advanceBullet ^^ Suc ?n) b"
        by (simp add: funpow_swap1)
      have first: "map_of (bullets (snd (run (a # acts) (e, r)))) bid =
              Some ((advanceBullet ^^ Suc ?n) b)"
        if "b_life b - real (Suc ?n) * GAME_DT > 0"
        using IH that unfolding e1 fp by (simp add: run_Cons stp)
      have second: "map_of (bullets (snd (run (a # acts) (e, r)))) bid = None"
        if "b_life b - real (Suc ?n - 1) * GAME_DT > 0" "b_life b - real (Suc ?n) * GAME_DT \<le> 0"
      proof -
        have "?n \<noteq> 0"
        proof
          assume "?n = 0"
          then have "b_life b - GAME_DT \<le> 0" using that(2) by simp
          then show False using l1 by simp
        qed
        then have n1: "1 \<le> ?n" by simp
        have e2: "b_life (advanceBullet b) - real (?n - 1) * GAME_DT = b_life b - real ?n * GAME_DT"
          using n1 by (simp add: lb algebra_simps of_nat_diff)
        have "b_life (advanceBullet b) - real (?n - 1) * GAME_DT > 0" using that(1) unfolding e2 by simp
        moreover have "b_life (advanceBullet b) - real ?n * GAME_DT \<le> 0" using that(2) unfolding e1 .
        ultimately show ?thesis using IH n1 by (simp add: run_Cons stp)
      qed
      show ?thesis unfolding cnt using first second by blast
    qed
  qed
qed

text \<open>
  Claim C6. \<open>spawnBullet\<close> stores the bullet with lifetime 2.5, and
  \<open>\<lceil>2.5 / dt\<rceil> = 113\<close> for \<open>dt = 1 / 45\<close>. Take a tick of a running match in whose input
  loop a bullet is spawned under an identity that was not in the store, and any sequence
  of room events after that tick along which the match is running and no later spawn takes
  the bullet's identity. If at each tick, the first included, the bullet strikes no
  obstacle and no player when its turn in the bullet loop comes, then the bullet has
  lifetime 2.5 when it is spawned; after fewer than 113 ticks, counting the tick that
  spawned it, it is still in the store, moved and aged once per tick, with lifetime
  \<open>2.5 - n / 45 > 0\<close>; and after exactly 113 ticks it is no longer in the store.
\<close>

theorem bullet_expires_after_113_ticks:
  assumes "matchRunning r" "distinct (map fst (bullets r))" "map_of (bullets r) bid = None"
    "map_of (bullets (snd (afterInputs (e, r)))) bid = Some b"
    "noStrike bid (e, r) b" "undisturbed bid acts (tick e r)"
  shows "b_life b = 2.5 \<and>
         (count_list (Tick # acts) Tick < 113 \<longrightarrow>
            map_of (bullets (snd (run (Tick # acts) (e, r)))) bid =
              Some ((advanceBullet ^^ count_list (Tick # acts) Tick) b) \<and>
            b_life ((advanceBullet ^^ count_list (Tick # acts) Tick) b) =
              2.5 - real (count_list (Tick # acts) Tick) / 45 \<and>
            b_life ((advanceBullet ^^ count_list (Tick # acts) Tick) b) > 0) \<and>
         (count_list (Tick # acts) Tick = 113 \<longrightarrow>
            map_of (bullets (snd (run (Tick # acts) (e, r)))) bid = None) \<and>
         nat \<lceil>2.5 / GAME_DT\<rceil> = 113 \<and>
         (\<exists>b'. map_of (bullets (snd (spawnBullet owner x y a e r))) (bulletIdent owner e) = Some b' \<and>
               b_life b' = 2.5)"
proof -
  let ?n = "count_list acts Tick"
  let ?b = "advanceBullet b"
  have life0: "b_life b = 2.5" using spawned_life[OF assms(3,4)] .
  have lb: "b_life ?b = 2.5 - 1 / 45" by (simp add: advanceBullet_def life0 game_consts)
  note tb = tick_bullet[OF assms(1,2,4,5)]
  obtain e' r' where st: "tick e r = (e', r')" by (cases "tick e r")
  have here: "map_of (bullets r') bid = Some ?b" using tb(1) st lb by simp
  have d: "distinct (map fst (bullets r'))" using tb(2) st by simp
  note f = flight[OF assms(6)[unfolded st] d here]
  have rn: "run (Tick # acts) (e, r) = run acts (e', r')" by (simp add: run_Cons st)
  have cnt: "count_list (Tick # acts) Tick = Suc ?n" by simp
  have fp: "(advanceBullet ^^ ?n) ?b = (advanceBullet ^^ Suc ?n) b" by (simp add: funpow_swap1)
  have life: "b_life ((advanceBullet ^^ Suc ?n) b) = 2.5 - real (Suc ?n) / 45"
    unfolding life_funpow life0 by (simp add: game_consts)
  have a: "b_life ?b - real ?n * GAME_DT > 0" if "Suc ?n < 113"
  proof -
    have "real ?n \<le> 111" using that by simp
    then show ?thesis by (simp add: lb game_consts)
  qed
  have b: "1 \<le> ?n \<and> b_life ?b - real (?n - 1) * GAME_DT > 0 \<and> b_life ?b - real ?n * GAME_DT \<le> 0"
    if "Suc ?n = 113"
  proof -
    have "?n = 112" using that by simp
    then show ?thesis by (simp add: lb game_consts)
  qed
  have c: "nat \<lceil>2.5 / GAME_DT\<rceil> = 113" by (simp add: game_consts)
  have p1: "map_of (bullets (snd (run (Tick # acts) (e, r)))) bid =
              Some ((advanceBullet ^^ Suc ?n) b) \<and>
            b_life ((advanceBullet ^^ Suc ?n) b) = 2.5 - real (Suc ?n) / 45 \<and>
            b_life ((advanceBullet ^^ Suc ?n) b) > 0" if "Suc ?n < 113"
  proof -
    have "map_of (bullets (snd (run acts (e', r')))) bid = Some ((advanceBullet ^^ ?n) ?b)"
      using f a[OF that] by blast
    then have 1: "map_of (bullets (snd (run (Tick # acts) (e, r)))) bid =
        Some ((advanceBullet ^^ Suc ?n) b)"
      unfolding rn fp .
    have "real (Suc ?n) \<le> 112" using that by simp
    then have "b_life ((advanceBullet ^^ Suc ?n) b) > 0" unfolding life by simp
    then show ?thesis using 1 life by blast
  qed
  have p2: "map_of (bullets (snd (run (Tick # acts) (e, r)))) bid = None" if "Suc ?n = 113"
    unfolding rn using f b[OF that] by blast
  have s: "\<exists>b'. map_of (bullets (snd (spawnBullet owner x y a e r))) (bulletIdent owner e) = Some b' \<and>
               b_life b' = 2.5"
    by (simp add: spawnBullet_bullets update_conv')
  show ?thesis unfolding cnt using life0 p1 p2 c s by blast
qed

lemma flight_inputs:
  assumes "flightShape r"
  shows "afterInputs (e, r) = (e, r\<lparr>seq := seq r + 1\<rparr>)"
proof -
  from assms obtain p where p: "players r = [(''a'', p)]" "p_inputs p = []"
    by (auto simp: flightShape_def)
  have "r\<lparr>seq := seq r + 1, players := [(''a'', p)]\<rparr> = r\<lparr>seq := seq r + 1\<rparr>"
    using p(1) by simp
  then show ?thesis using p by (simp add: afterInputs_def)
qed

lemma flight_no_strike:
  assumes "players r = [(''a'', p)]" "p_id p = ''a''" "map_arena r = exArena"
    "b_owner b = ''a''" "b_y b = Fin 100"
  shows "\<not> strikes r b"
proof -
  have "\<not> jlt (jadd (jmul d d) (Fin 50625)) (Fin 2704)" for d
    by (rule far_from_pillar) simp_all
  then have "\<not> collidesWithObstacles exArena (b_x b) (Fin 100) 2"
    by (simp add: collidesWithObstacles_def exArena_def Let_def power2_eq_square jsub_def
        jgt_def number_small)
  moreover have "findHit [(''a'', p)] b = None"
    using assms(2,4) by (simp add: findHit_def)
  ultimately show ?thesis using assms by (simp add: strikes_def)
qed

lemma flight_tick:
  assumes "flightShape r"
  shows "clearTick ''a-1000-9'' (e, r)" "flightShape (snd (tick e r))"
proof -
  let ?r0 = "r\<lparr>seq := seq r + 1\<rparr>"
  let ?r1 = "movePlayers ?r0"
  note ai = flight_inputs[OF assms, of e]
  from assms obtain p where sh: "matchRunning r" "map_arena r = exArena"
    "players r = [(''a'', p)]" "p_id p = ''a''" "p_inputs p = []"
    by (auto simp: flightShape_def)
  let ?p = "movePlayer exArena p"
  have mp: "players ?r1 = [(''a'', ?p)]" "p_id ?p = ''a''" "p_inputs ?p = []"
    "map_arena ?r1 = exArena" "bullets ?r1 = bullets r" "matchRunning ?r1"
    using sh by (simp_all add: movePlayers_def movePlayer_def Let_def)
  have t: "tick e r = snapshot (fst (moveBullets e ?r1)) (snd (moveBullets e ?r1))"
    using sh(1) ai by (simp add: tick_def Let_def case_prod_unfold afterInputs_def)
  have alt: "bullets r = [] \<or>
      (\<exists>b. bullets r = [(''a-1000-9'', b)] \<and> b_owner b = ''a'' \<and> b_y b = Fin 100 \<and>
           b_vy b = Fin 0)"
    using assms by (simp add: flightShape_def)
  show "clearTick ''a-1000-9'' (e, r)"
  proof (cases "bullets r = []")
    case True
    then show ?thesis by (simp add: clearTick_def ai)
  next
    case False
    then obtain b where 2: "bullets r = [(''a-1000-9'', b)]" "b_owner b = ''a''" "b_y b = Fin 100"
      using alt by blast
    let ?b = "advanceBullet b"
    have ab: "b_owner ?b = ''a''" "b_y ?b = Fin 100"
      using 2 assms by (auto simp: advanceBullet_def flightShape_def number_small)
    have bb: "beforeBullet ''a-1000-9'' (e, ?r1) = (e, ?r1)"
      using 2 mp(5) by (simp add: beforeBullet_def)
    have ns: "\<not> strikes ?r1 ?b" using flight_no_strike[OF mp(1,2,4) ab] .
    show ?thesis using 2(1) ns by (simp add: clearTick_def noStrike_def ai bb)
  qed
  show "flightShape (snd (tick e r))"
  proof (cases "bullets r = []")
    case True
    then have "moveBullets e ?r1 = (e, ?r1)" using mp(5) by (simp add: moveBullets_def)
    then show ?thesis
      using mp True
      by (simp add: t snapshot_def broadcast_def case_prod_unfold flightShape_def)
  next
    case False
    then obtain b where 2: "bullets r = [(''a-1000-9'', b)]" "b_owner b = ''a''" "b_y b = Fin 100"
      "b_vy b = Fin 0"
      using alt by blast
    let ?b = "advanceBullet b"
    have ab: "b_owner ?b = ''a''" "b_y ?b = Fin 100" "b_vy ?b = Fin 0"
      using 2 by (simp_all add: advanceBullet_def number_small)
    have ns: "\<not> strikes ?r1 ?b" using flight_no_strike[OF mp(1,2,4) ab(1,2)] .
    have "bullets (snd (moveBullets e ?r1)) =
            (if b_life ?b \<le> 0 then [] else [(''a-1000-9'', ?b)]) \<and>
          players (snd (moveBullets e ?r1)) = players ?r1 \<and>
          map_arena (snd (moveBullets e ?r1)) = map_arena ?r1 \<and>
          matchRunning (snd (moveBullets e ?r1))"
      using 2(1) ns mp(5,6)
      by (simp add: moveBullets_def stepBullet_def strikes_def Let_def AList.delete_eq
          split: option.splits)
    then show ?thesis
      using mp ab by (simp add: t snapshot_def broadcast_def case_prod_unfold flightShape_def)
  qed
qed

lemma flight_undisturbed:
  assumes "flightShape r"
  shows "undisturbed ''a-1000-9'' (replicate n Tick) (e, r)"
  using assms
proof (induction n arbitrary: e r)
  case 0
  then show ?case by simp
next
  case (Suc n)
  note ft = flight_tick[OF Suc.prems, of e]
  have "undisturbed ''a-1000-9'' (replicate n Tick) (fst (tick e r), snd (tick e r))"
    using Suc.IH[OF ft(2)] .
  then show ?case using ft(1) Suc.prems by (simp add: flightShape_def)
qed

lemma count_replicate_Tick: "count_list (replicate n Tick) Tick = n"
  by (induction n) simp_all

text \<open>The first tick of the example: the queued input spawns the bullet.\<close>

lemma showNat_1000: "showNat 1000 = ''1000''"
  by (simp add: showNat.simps digitChar_def)

lemma suffix_quarter: "randomSuffix (1 / 4) = ''9''"
  by (simp add: randomSuffix_unfold digitChar_def)

lemma flightRoom_inputs:
  "afterInputs (constEnv (1 / 4) 1000, flightRoom) =
     (constEnv (1 / 4) 1000,
      flightRoom\<lparr>seq := 1,
        players := [(''a'', (mkPlayer ''a'' 0 False)\<lparr>p_lastInputSeq := 1\<rparr>)],
        bullets := [(''a-1000-9'', flightBullet)]\<rparr>)"
  by (simp add: afterInputs_def flightRoom_def mkRoom_def mkPlayer_def fireInput_def Let_def
      spawnBullet_def dateNow_def mathRandom_def constEnv_def showNat_1000 suffix_quarter
      flightBullet_def game_consts orZero_def jgt_def number_small)

lemma flightRoom_first_tick:
  "noStrike ''a-1000-9'' (constEnv (1 / 4) 1000, flightRoom) flightBullet"
  "flightShape (snd (tick (constEnv (1 / 4) 1000) flightRoom))"
proof -
  let ?e = "constEnv (1 / 4) 1000"
  let ?r1 = "flightRoom\<lparr>seq := 1,
        players := [(''a'', (mkPlayer ''a'' 0 False)\<lparr>p_lastInputSeq := 1\<rparr>)],
        bullets := [(''a-1000-9'', flightBullet)]\<rparr>"
  let ?r2 = "movePlayers ?r1"
  let ?p = "movePlayer exArena ((mkPlayer ''a'' 0 False)\<lparr>p_lastInputSeq := 1\<rparr>)"
  let ?b = "advanceBullet flightBullet"
  have mp: "players ?r2 = [(''a'', ?p)]" "p_id ?p = ''a''" "p_inputs ?p = []"
    "map_arena ?r2 = exArena" "bullets ?r2 = [(''a-1000-9'', flightBullet)]" "matchRunning ?r2"
    by (simp_all add: movePlayers_def movePlayer_def Let_def flightRoom_def mkRoom_def
        mkPlayer_def)
  have ab: "b_owner ?b = ''a''" "b_y ?b = Fin 100" "b_vy ?b = Fin 0" "\<not> b_life ?b \<le> 0"
    by (simp_all add: advanceBullet_def flightBullet_def game_consts number_small)
  have ns: "\<not> strikes ?r2 ?b" using flight_no_strike[OF mp(1,2,4) ab(1,2)] .
  have bb: "beforeBullet ''a-1000-9'' (?e, ?r2) = (?e, ?r2)"
    using mp(5) by (simp add: beforeBullet_def)
  show "noStrike ''a-1000-9'' (?e, flightRoom) flightBullet"
    using ns by (simp add: noStrike_def flightRoom_inputs bb)
  have run: "matchRunning flightRoom" by (simp add: flightRoom_def mkRoom_def)
  have t: "tick ?e flightRoom = snapshot (fst (moveBullets ?e ?r2)) (snd (moveBullets ?e ?r2))"
    using run flightRoom_inputs[unfolded afterInputs_def]
    by (simp add: tick_def Let_def case_prod_unfold)
  have "bullets (snd (moveBullets ?e ?r2)) = [(''a-1000-9'', ?b)] \<and>
        players (snd (moveBullets ?e ?r2)) = players ?r2 \<and>
        map_arena (snd (moveBullets ?e ?r2)) = map_arena ?r2 \<and>
        matchRunning (snd (moveBullets ?e ?r2))"
    using mp(5,6) ns ab(4)
    by (simp add: moveBullets_def stepBullet_def strikes_def Let_def split: option.splits)
  then show "flightShape (snd (tick ?e flightRoom))"
    using mp ab by (simp add: t snapshot_def broadcast_def case_prod_unfold flightShape_def)
qed

theorem bullet_expires_after_113_ticks_witness:
  "matchRunning flightRoom \<and> distinct (map fst (bullets flightRoom)) \<and>
   map_of (bullets flightRoom) ''a-1000-9'' = None \<and>
   map_of (bullets (snd (afterInputs (constEnv (1 / 4) 1000, flightRoom)))) ''a-1000-9'' =
     Some flightBullet \<and>
   noStrike ''a-1000-9'' (constEnv (1 / 4) 1000, flightRoom) flightBullet \<and>
   undisturbed ''a-1000-9'' (replicate 112 Tick) (tick (constEnv (1 / 4) 1000) flightRoom) \<and>
   map_of (bullets (snd (run (replicate 112 Tick) (constEnv (1 / 4) 1000, flightRoom))))
     ''a-1000-9'' = Some ((advanceBullet ^^ 112) flightBullet) \<and>
   b_life ((advanceBullet ^^ 112) flightBullet) = 1 / 90 \<and>
   map_of (bullets (snd (run (replicate 113 Tick) (constEnv (1 / 4) 1000, flightRoom))))
     ''a-1000-9'' = None"
proof -
  let ?e = "constEnv (1 / 4) 1000"
  have h: "matchRunning flightRoom" "distinct (map fst (bullets flightRoom))"
    "map_of (bullets flightRoom) ''a-1000-9'' = None"
    by (simp_all add: flightRoom_def mkRoom_def)
  have sp: "map_of (bullets (snd (afterInputs (?e, flightRoom)))) ''a-1000-9'' = Some flightBullet"
    by (simp add: flightRoom_inputs)
  note ns = flightRoom_first_tick(1)
  have u: "undisturbed ''a-1000-9'' (replicate n Tick) (tick ?e flightRoom)" for n
    using flight_undisturbed[OF flightRoom_first_tick(2), of n "fst (tick ?e flightRoom)"]
    by simp
  have r112: "Tick # replicate 111 Tick = replicate 112 Tick"
    and r113: "Tick # replicate 112 Tick = replicate 113 Tick"
    by (simp_all add: numeral_eq_Suc)
  note A = bullet_expires_after_113_ticks[OF h sp ns u[of 111],
      unfolded r112 count_replicate_Tick]
  note B = bullet_expires_after_113_ticks[OF h sp ns u[of 112],
      unfolded r113 count_replicate_Tick]
  have 1: "map_of (bullets (snd (run (replicate 112 Tick) (?e, flightRoom)))) ''a-1000-9'' =
     Some ((advanceBullet ^^ 112) flightBullet)"
    "b_life ((advanceBullet ^^ 112) flightBullet) = 1 / 90"
    using A by simp_all
  have 2: "map_of (bullets (snd (run (replicate 113 Tick) (?e, flightRoom)))) ''a-1000-9'' = None"
    using B by simp
  show ?thesis using h sp ns u[of 112] 1 2 by blast
qed

end
